theory Spec2Isabelle
  imports Complex_Main "HOL-Library.AList" "HOL-Library.Char_ord" "HOL-Library.List_Lexorder"
begin

section \<open>Python values, errors and results\<close>

text \<open>
  Every \<^verbatim>\<open>raise\<close> of \<^verbatim>\<open>sci_var.py\<close> (and of the interpreter on its behalf) is a value of
  \<open>error\<close>; a function that may raise returns \<open>error + 'a\<close> with \<open>Inl\<close> the error.
  \<open>OutOfFuel\<close> belongs to the recursion bound of the fuzzy-dimension recursion and
  \<open>Unmodelled\<close> marks Python behaviour that the embedding does not cover.
\<close>

datatype error = KeyError | AttributeError | TypeError | IndexError | ValueError
  | UnboundLocalError | OutOfFuel | Unmodelled

definition bind_res :: "error + 'a \<Rightarrow> ('a \<Rightarrow> error + 'b) \<Rightarrow> error + 'b" where
  "bind_res m g = (case m of Inl e \<Rightarrow> Inl e | Inr x \<Rightarrow> g x)"

fun foldM :: "('s \<Rightarrow> 'x \<Rightarrow> error + 's) \<Rightarrow> 's \<Rightarrow> 'x list \<Rightarrow> error + 's" where
  "foldM g s [] = Inr s"
| "foldM g s (x # xs) = bind_res (g s x) (\<lambda>s'. foldM g s' xs)"

text \<open>\<^verbatim>\<open>class PseudoNetCDFDimension\<close>: \<^verbatim>\<open>_len\<close> and \<^verbatim>\<open>_unlimited\<close>.\<close>

record dimension =
  d_len :: nat
  d_unlimited :: bool

definition PseudoNetCDFDimension :: "nat \<Rightarrow> dimension" where
  "PseudoNetCDFDimension n = \<lparr>d_len = n, d_unlimited = False\<rparr>"

definition isunlimited :: "dimension \<Rightarrow> bool" where
  "isunlimited d = d_unlimited d"

definition setunlimited :: "dimension \<Rightarrow> bool \<Rightarrow> dimension" where
  "setunlimited d u = d\<lparr>d_unlimited := u\<rparr>"

text \<open>
  Attribute values. \<open>PThunk c\<close> is the \<^verbatim>\<open>lambda: typecode\<close> stored under \<^verbatim>\<open>typecode\<close>;
  \<open>PTuple\<close> is a tuple of names (\<^verbatim>\<open>_ncattrs\<close>, \<^verbatim>\<open>dimensions\<close>).
\<close>

datatype pyval = PNone | PInt int | PStr string | PTuple "string list" | PThunk string
  | PDim dimension | PDict "(string \<times> pyval) list"

section \<open>Arrays\<close>

text \<open>
  A numpy array is its shape, its elements as a nested list (one level per axis) and the
  character code of its dtype. \<open>get\<close> reads one element, \<open>tabulate\<close> builds the elements of a
  given shape from an index function; the numpy operations used by the module are written
  with the two.
\<close>

datatype 'a nd = Leaf 'a | Node "'a nd list"

record 'a ndarray =
  shape :: "nat list"
  body :: "'a nd"
  dtype_char :: string

fun get :: "'a nd \<Rightarrow> nat list \<Rightarrow> 'a" where
  "get (Leaf x) idx = x"
| "get (Node xs) [] = undefined"
| "get (Node xs) (i # idx) = get (xs ! i) idx"

fun tabulate :: "nat list \<Rightarrow> (nat list \<Rightarrow> 'a) \<Rightarrow> 'a nd" where
  "tabulate [] g = Leaf (g [])"
| "tabulate (n # ns) g = Node (map (\<lambda>i. tabulate ns (\<lambda>idx. g (i # idx))) [0..<n])"

fun has_shape :: "nat list \<Rightarrow> 'a nd \<Rightarrow> bool" where
  "has_shape [] (Leaf x) = True"
| "has_shape (n # ns) (Node xs) = (length xs = n \<and> list_all (has_shape ns) xs)"
| "has_shape [] (Node xs) = False"
| "has_shape (n # ns) (Leaf x) = False"

definition wf_ndarray :: "'a ndarray \<Rightarrow> bool" where
  "wf_ndarray a = has_shape (shape a) (body a)"

fun valid_index :: "nat list \<Rightarrow> nat list \<Rightarrow> bool" where
  "valid_index [] [] = True"
| "valid_index (n # ns) (i # idx) = (i < n \<and> valid_index ns idx)"
| "valid_index [] (i # idx) = False"
| "valid_index (n # ns) [] = False"

section \<open>Attributed arrays: \<^verbatim>\<open>class PseudoNetCDFVariable(ndarray)\<close>\<close>

text \<open>
  An instance is the array data and the instance \<^verbatim>\<open>__dict__\<close>, which holds
  \<^verbatim>\<open>_ncattrs\<close>, \<^verbatim>\<open>dimensions\<close>, \<^verbatim>\<open>typecode\<close> and the user attributes. The names that
  \<^verbatim>\<open>ndarray\<close> and the class define themselves (\<^verbatim>\<open>shape\<close>, \<^verbatim>\<open>T\<close>, \<^verbatim>\<open>ncattrs\<close>, ...) are the
  parameter \<open>cls\<close>; reading or writing one of them is numpy's business and is \<open>Unmodelled\<close>.
\<close>

record 'a var =
  vdata :: "'a ndarray"
  vdict :: "(string \<times> pyval) list"

datatype 'a pyobj = ObjNone | ObjPlain "'a ndarray" | ObjVar "'a var"

definition hasattr_var :: "string list \<Rightarrow> 'a var \<Rightarrow> string \<Rightarrow> bool" where
  "hasattr_var cls v k = (k \<in> set cls \<or> map_of (vdict v) k \<noteq> None)"

definition getattr_var :: "string list \<Rightarrow> 'a var \<Rightarrow> string \<Rightarrow> error + pyval" where
  "getattr_var cls v k =
     (if k \<in> set cls then Inl Unmodelled
      else case map_of (vdict v) k of None \<Rightarrow> Inl AttributeError | Some x \<Rightarrow> Inr x)"

definition hasattr_obj :: "string list \<Rightarrow> 'a pyobj \<Rightarrow> string \<Rightarrow> bool" where
  "hasattr_obj cls obj k =
     (case obj of ObjNone \<Rightarrow> False | ObjPlain a \<Rightarrow> k \<in> set cls | ObjVar v \<Rightarrow> hasattr_var cls v k)"

definition getattr_obj :: "string list \<Rightarrow> 'a pyobj \<Rightarrow> string \<Rightarrow> error + pyval" where
  "getattr_obj cls obj k =
     (case obj of ObjNone \<Rightarrow> Inl AttributeError
      | ObjPlain a \<Rightarrow> (if k \<in> set cls then Inl Unmodelled else Inl AttributeError)
      | ObjVar v \<Rightarrow> getattr_var cls v k)"

text \<open>\<^verbatim>\<open>ndarray.__setattr__(self, k, v)\<close> on a name that is not the class's own.\<close>

definition ndarray_setattr :: "string list \<Rightarrow> 'a var \<Rightarrow> string \<Rightarrow> pyval \<Rightarrow> error + 'a var" where
  "ndarray_setattr cls v k x =
     (if k \<in> set cls then Inl Unmodelled
      else Inr (v\<lparr>vdict := AList.update k x (vdict v)\<rparr>))"

text \<open>
  \<^verbatim>\<open>PseudoNetCDFVariable.__setattr__\<close>. The statement \<^verbatim>\<open>self._ncattrs += (k,)\<close> reads
  \<^verbatim>\<open>_ncattrs\<close>, concatenates and assigns the result through \<^verbatim>\<open>__setattr__\<close> again, where
  the underscore takes it straight to \<^verbatim>\<open>ndarray.__setattr__\<close>.
\<close>

definition setattr_var :: "string list \<Rightarrow> 'a var \<Rightarrow> string \<Rightarrow> pyval \<Rightarrow> error + 'a var" where
  "setattr_var cls v k x =
     (if \<not> hasattr_var cls v k \<and> take 1 k \<noteq> ''_'' then
        bind_res (getattr_var cls v ''_ncattrs'') (\<lambda>nc.
          case nc of
            PTuple ns \<Rightarrow>
              bind_res (ndarray_setattr cls v ''_ncattrs'' (PTuple (ns @ [k]))) (\<lambda>v'.
                ndarray_setattr cls v' k x)
          | _ \<Rightarrow> Inl TypeError)
      else ndarray_setattr cls v k x)"

definition ncattrs_var :: "string list \<Rightarrow> 'a var \<Rightarrow> error + pyval" where
  "ncattrs_var cls v = getattr_var cls v ''_ncattrs''"

text \<open>
  \<^verbatim>\<open>PseudoNetCDFVariable.__array_finalize__(self, obj)\<close>. The \<^verbatim>\<open>return\<close> under
  \<^verbatim>\<open>obj is None\<close> leaves the whole method, so it skips the second block.
\<close>

definition copy_ncattrs :: "string list \<Rightarrow> 'a var \<Rightarrow> 'a pyobj \<Rightarrow> string list \<Rightarrow> error + 'a var" where
  "copy_ncattrs cls self obj ns =
     foldM (\<lambda>s k. bind_res (getattr_obj cls obj k) (\<lambda>x. setattr_var cls s k x)) self ns"

definition finalize_dimensions :: "string list \<Rightarrow> 'a var \<Rightarrow> 'a pyobj \<Rightarrow> error + 'a var" where
  "finalize_dimensions cls self obj =
     (if \<not> hasattr_var cls self ''dimensions'' then
        if hasattr_obj cls obj ''dimensions'' then
          bind_res (getattr_obj cls obj ''dimensions'') (\<lambda>d.
          bind_res (setattr_var cls self ''dimensions'' d) (\<lambda>s.
          bind_res (getattr_var cls s ''_ncattrs'') (\<lambda>nc.
            case nc of
              PTuple ns \<Rightarrow> setattr_var cls s ''_ncattrs'' (PTuple (butlast ns))
            | _ \<Rightarrow> Inl Unmodelled)))
        else Inr self
      else Inr self)"

definition array_finalize :: "string list \<Rightarrow> 'a var \<Rightarrow> 'a pyobj \<Rightarrow> error + 'a var" where
  "array_finalize cls self obj =
     (if \<not> hasattr_var cls self ''_ncattrs'' then
        bind_res (setattr_var cls self ''_ncattrs'' (PTuple [])) (\<lambda>s.
          case obj of
            ObjNone \<Rightarrow> Inr s
          | _ \<Rightarrow>
             (if hasattr_obj cls obj ''_ncattrs'' then
                bind_res (getattr_obj cls obj ''_ncattrs'') (\<lambda>nc.
                  case nc of
                    PTuple ns \<Rightarrow>
                      bind_res (copy_ncattrs cls s obj ns) (\<lambda>s'.
                        finalize_dimensions cls s' obj)
                  | _ \<Rightarrow> Inl Unmodelled)
              else finalize_dimensions cls s obj))
      else finalize_dimensions cls self obj)"

text \<open>
  numpy makes every new array of the class (a slice, an axis swap, the result of arithmetic
  or of a reduction) as a fresh object with an empty \<^verbatim>\<open>__dict__\<close> around the new data and
  calls \<^verbatim>\<open>__array_finalize__\<close> on it with the array it comes from.
\<close>

definition new_view :: "string list \<Rightarrow> 'a ndarray \<Rightarrow> 'a pyobj \<Rightarrow> error + 'a var" where
  "new_view cls a obj = array_finalize cls \<lparr>vdata = a, vdict = []\<rparr> obj"

text \<open>
  \<^verbatim>\<open>obj[...]\<close>: a plain array gives a plain view of itself, an attributed array a new
  view of its class, \<^verbatim>\<open>None\<close> cannot be subscripted.
\<close>

definition obj_data :: "'a pyobj \<Rightarrow> error + 'a ndarray" where
  "obj_data obj =
     (case obj of ObjNone \<Rightarrow> Inl TypeError | ObjPlain a \<Rightarrow> Inr a | ObjVar v \<Rightarrow> Inr (vdata v))"

definition ellipsis_var :: "string list \<Rightarrow> 'a var \<Rightarrow> error + 'a var" where
  "ellipsis_var cls v = new_view cls (vdata v) (ObjVar v)"

definition ellipsis_obj :: "string list \<Rightarrow> 'a pyobj \<Rightarrow> error + 'a pyobj" where
  "ellipsis_obj cls obj =
     (case obj of
        ObjNone \<Rightarrow> Inl TypeError
      | ObjPlain a \<Rightarrow> Inr (ObjPlain a)
      | ObjVar v \<Rightarrow> bind_res (ellipsis_var cls v) (\<lambda>v'. Inr (ObjVar v')))"

definition zeros :: "nat list \<Rightarrow> string \<Rightarrow> ('a::zero) ndarray" where
  "zeros sh typecode = \<lparr>shape = sh, body = tabulate sh (\<lambda>idx. 0), dtype_char = typecode\<rparr>"

fun dims_shape :: "(string \<times> dimension) list \<Rightarrow> string list \<Rightarrow> error + nat list" where
  "dims_shape ds [] = Inr []"
| "dims_shape ds (d # rest) =
     (case map_of ds d of
        None \<Rightarrow> Inl KeyError
      | Some dm \<Rightarrow> bind_res (dims_shape ds rest) (\<lambda>sh. Inr (d_len dm # sh)))"

text \<open>
  \<^verbatim>\<open>PseudoNetCDFVariable.__new__(subtype, parent, name, typecode, dimensions, **kwds)\<close>.
  The keyword \<^verbatim>\<open>values\<close> is the argument \<open>vals\<close> (\<open>None\<close> when it is not given), the other
  keywords are \<open>kwds\<close> in the order the dictionary yields them; \<open>pdims\<close> is
  \<^verbatim>\<open>parent.dimensions\<close>. \<^verbatim>\<open>typecode\<close> and \<^verbatim>\<open>dimensions\<close> are written into \<^verbatim>\<open>__dict__\<close>
  directly, not through \<^verbatim>\<open>__setattr__\<close>.
\<close>

definition PseudoNetCDFVariable ::
  "string list \<Rightarrow> (string \<times> dimension) list \<Rightarrow> string \<Rightarrow> string \<Rightarrow> string list
     \<Rightarrow> ('a::zero) pyobj option \<Rightarrow> (string \<times> pyval) list \<Rightarrow> error + 'a var" where
  "PseudoNetCDFVariable cls pdims name typecode dims vals kwds =
     bind_res
       (case vals of
          Some obj \<Rightarrow> Inr obj
        | None \<Rightarrow> bind_res (dims_shape pdims dims) (\<lambda>sh. Inr (ObjPlain (zeros sh typecode))))
       (\<lambda>result0.
     bind_res (ellipsis_obj cls result0) (\<lambda>result1.
     bind_res (obj_data result1) (\<lambda>a.
     bind_res (new_view cls a result1) (\<lambda>result2.
       let result3 = result2\<lparr>vdict :=
             AList.update ''dimensions'' (PTuple dims)
               (AList.update ''typecode'' (PThunk typecode) (vdict result2))\<rparr>
       in foldM (\<lambda>r (k, x). setattr_var cls r k x) result3 kwds))))"

section \<open>Datasets: \<^verbatim>\<open>class PseudoNetCDFFile(object)\<close>\<close>

text \<open>
  \<^verbatim>\<open>__new__\<close> gives every instance \<^verbatim>\<open>variables\<close>, \<^verbatim>\<open>dimensions\<close> and \<^verbatim>\<open>_ncattrs\<close>; they are
  the first three fields, and \<open>fdict\<close> is the rest of the instance \<^verbatim>\<open>__dict__\<close>. The two
  dictionaries are association lists: assigning to a key that is present keeps its
  place, a new key goes to the end. A value assigned to an attribute is a \<open>pyval\<close> or
  one of the two dictionaries.
\<close>

record 'a pfile =
  variables :: "(string \<times> 'a var) list"
  dimensions :: "(string \<times> dimension) list"
  f_ncattrs :: "string list"
  fdict :: "(string \<times> pyval) list"

datatype 'a fvalue = FVal pyval | FVariables "(string \<times> 'a var) list"
  | FDimensions "(string \<times> dimension) list"

definition object_setattr :: "'a pfile \<Rightarrow> string \<Rightarrow> 'a fvalue \<Rightarrow> error + 'a pfile" where
  "object_setattr f k v =
     (if k = ''variables'' then
        (case v of FVariables vs \<Rightarrow> Inr (f\<lparr>variables := vs\<rparr>) | _ \<Rightarrow> Inl Unmodelled)
      else if k = ''dimensions'' then
        (case v of FDimensions ds \<Rightarrow> Inr (f\<lparr>dimensions := ds\<rparr>) | _ \<Rightarrow> Inl Unmodelled)
      else if k = ''_ncattrs'' then
        (case v of FVal (PTuple ns) \<Rightarrow> Inr (f\<lparr>f_ncattrs := ns\<rparr>) | _ \<Rightarrow> Inl Unmodelled)
      else
        (case v of FVal x \<Rightarrow> Inr (f\<lparr>fdict := AList.update k x (fdict f)\<rparr>)
         | _ \<Rightarrow> Inl Unmodelled))"

text \<open>\<^verbatim>\<open>PseudoNetCDFFile.__setattr__(self, k, v)\<close>.\<close>

definition setattr_file :: "'a pfile \<Rightarrow> string \<Rightarrow> 'a fvalue \<Rightarrow> error + 'a pfile" where
  "setattr_file f k v =
     (if \<not> (take 1 k = ''_'' \<or> k \<in> set [''dimensions'', ''variables'', ''groups'']) then
        bind_res (object_setattr f ''_ncattrs'' (FVal (PTuple (f_ncattrs f @ [k])))) (\<lambda>f'.
          object_setattr f' k v)
      else object_setattr f k v)"

definition PseudoNetCDFFile_new :: "'a pfile" where
  "PseudoNetCDFFile_new = \<lparr>variables = [], dimensions = [], f_ncattrs = [], fdict = []\<rparr>"

text \<open>\<^verbatim>\<open>PseudoNetCDFFile(**properties)\<close>: \<^verbatim>\<open>__new__\<close>, then \<^verbatim>\<open>__init__\<close>.\<close>

definition PseudoNetCDFFile :: "(string \<times> 'a fvalue) list \<Rightarrow> error + 'a pfile" where
  "PseudoNetCDFFile properties =
     foldM (\<lambda>f (k, v). setattr_file f k v) PseudoNetCDFFile_new properties"

definition ncattrs :: "'a pfile \<Rightarrow> string list" where
  "ncattrs f = f_ncattrs f"

text \<open>
  The names every instance of the class answers to without their being in its
  \<^verbatim>\<open>__dict__\<close>: the methods of the class and the attributes of \<^verbatim>\<open>object\<close>.
\<close>

definition file_cls :: "string list" where
  "file_cls = [''createDimension'', ''createVariable'', ''close'', ''ncattrs'', ''sync'',
     ''flush'', ''__new__'', ''__init__'', ''__setattr__'', ''__class__'', ''__delattr__'',
     ''__dict__'', ''__doc__'', ''__format__'', ''__getattribute__'', ''__hash__'',
     ''__module__'', ''__reduce__'', ''__reduce_ex__'', ''__repr__'', ''__sizeof__'',
     ''__str__'', ''__subclasshook__'', ''__weakref__'']"

definition hasattr_file :: "'a pfile \<Rightarrow> string \<Rightarrow> bool" where
  "hasattr_file f k =
     (k \<in> set [''variables'', ''dimensions'', ''_ncattrs''] \<or> map_of (fdict f) k \<noteq> None
      \<or> k \<in> set file_cls)"

definition getattr_file :: "'a pfile \<Rightarrow> string \<Rightarrow> error + pyval" where
  "getattr_file f k =
     (if k = ''variables'' \<or> k = ''dimensions'' then Inl Unmodelled
      else if k = ''_ncattrs'' then Inr (PTuple (f_ncattrs f))
      else case map_of (fdict f) k of
             Some x \<Rightarrow> Inr x
           | None \<Rightarrow> (if k \<in> set file_cls then Inl Unmodelled else Inl AttributeError))"

definition createDimension :: "'a pfile \<Rightarrow> string \<Rightarrow> nat \<Rightarrow> 'a pfile" where
  "createDimension f name n =
     f\<lparr>dimensions := AList.update name (PseudoNetCDFDimension n) (dimensions f)\<rparr>"

definition createVariable ::
  "string list \<Rightarrow> ('a::zero) pfile \<Rightarrow> string \<Rightarrow> string \<Rightarrow> string list
     \<Rightarrow> 'a pyobj option \<Rightarrow> (string \<times> pyval) list \<Rightarrow> error + 'a pfile" where
  "createVariable cls f name type dims vals properties =
     bind_res (PseudoNetCDFVariable cls (dimensions f) name type dims vals properties) (\<lambda>var.
       Inr (f\<lparr>variables := AList.update name var (variables f)\<rparr>))"

section \<open>The lazy registry: \<^verbatim>\<open>class PseudoNetCDFVariables(defaultdict)\<close>\<close>

text \<open>
  \<open>stored\<close> is the content of the dictionary itself, \<open>r_keys\<close> and \<open>r_func\<close> are
  \<^verbatim>\<open>self.__keys\<close> and \<^verbatim>\<open>self.__func\<close>. The factory is any Python callable: it may raise and
  it may change the world around it, so it maps a key and a world state \<open>'w\<close> to a result
  and a world state. A lookup returns the registry as well, as it is after the lookup.
\<close>

record ('k, 'v, 'w) registry =
  stored :: "('k \<times> 'v) list"
  r_keys :: "'k list"
  r_func :: "'k \<Rightarrow> 'w \<Rightarrow> (error + 'v) \<times> 'w"

definition registry_init ::
  "('k \<Rightarrow> 'w \<Rightarrow> (error + 'v) \<times> 'w) \<Rightarrow> 'k list \<Rightarrow> ('k, 'v, 'w) registry" where
  "registry_init func keys = \<lparr>stored = [], r_keys = keys, r_func = func\<rparr>"

definition registry_keys :: "('k, 'v, 'w) registry \<Rightarrow> 'k list" where
  "registry_keys r = remdups (map fst (stored r) @ r_keys r)"

definition addkey :: "('k, 'v, 'w) registry \<Rightarrow> 'k \<Rightarrow> ('k, 'v, 'w) registry" where
  "addkey r k = r\<lparr>r_keys := r_keys r @ [k]\<rparr>"

definition has_key :: "('k, 'v, 'w) registry \<Rightarrow> 'k \<Rightarrow> bool" where
  "has_key r k = (k \<in> set (registry_keys r))"

definition registry_missing ::
  "('k, 'v, 'w) registry \<Rightarrow> 'k \<Rightarrow> 'w \<Rightarrow> (error + 'v) \<times> ('k, 'v, 'w) registry \<times> 'w" where
  "registry_missing r k w =
     (if k \<in> set (registry_keys r) then
        (case r_func r k w of (res, w') \<Rightarrow> (res, r, w'))
      else (Inl KeyError, r, w))"

text \<open>\<^verbatim>\<open>registry[k]\<close>: the dictionary's own lookup, which calls \<^verbatim>\<open>__missing__\<close> on a miss.\<close>

definition registry_getitem ::
  "('k, 'v, 'w) registry \<Rightarrow> 'k \<Rightarrow> 'w \<Rightarrow> (error + 'v) \<times> ('k, 'v, 'w) registry \<times> 'w" where
  "registry_getitem r k w =
     (case map_of (stored r) k of
        Some v \<Rightarrow> (Inr v, r, w)
      | None \<Rightarrow> registry_missing r k w)"

definition registry_setitem :: "('k, 'v, 'w) registry \<Rightarrow> 'k \<Rightarrow> 'v \<Rightarrow> ('k, 'v, 'w) registry" where
  "registry_setitem r k v = r\<lparr>stored := AList.update k v (stored r)\<rparr>"

section \<open>\<^verbatim>\<open>get_dimension_length\<close>\<close>

definition subscript :: "pyval \<Rightarrow> string \<Rightarrow> error + pyval" where
  "subscript c key =
     (case c of
        PDict d \<Rightarrow> (case map_of d key of None \<Rightarrow> Inl KeyError | Some x \<Rightarrow> Inr x)
      | _ \<Rightarrow> Inl TypeError)"

definition py_len :: "pyval \<Rightarrow> error + int" where
  "py_len c =
     (case c of
        PStr s \<Rightarrow> Inr (int (length s))
      | PTuple t \<Rightarrow> Inr (int (length t))
      | PDict d \<Rightarrow> Inr (int (length d))
      | PDim d \<Rightarrow> Inr (int (d_len d))
      | _ \<Rightarrow> Inl TypeError)"

fun index_of :: "'k \<Rightarrow> 'k list \<Rightarrow> nat" where
  "index_of k [] = 0"
| "index_of k (x # xs) = (if x = k then 0 else Suc (index_of k xs))"

text \<open>
  The loop of the \<^verbatim>\<open>dim is None\<close> branch over \<^verbatim>\<open>pfile.variables.keys()\<close>; \<open>None\<close> is
  falling out of the loop.
\<close>

fun first_extent :: "string list \<Rightarrow> string \<Rightarrow> (string \<times> 'a var) list \<Rightarrow> error + int option" where
  "first_extent cls key [] = Inr None"
| "first_extent cls key ((k, v) # rest) =
     bind_res (getattr_var cls v ''dimensions'') (\<lambda>d.
       case d of
         PTuple ds \<Rightarrow>
           (if key \<in> set ds then
              bind_res (ellipsis_var cls v) (\<lambda>v'.
                let sh = shape (vdata v'); i = index_of key ds
                in if i < length sh then Inr (Some (int (sh ! i))) else Inl IndexError)
            else first_extent cls key rest)
       | _ \<Rightarrow> Inl Unmodelled)"

definition get_dimension_length :: "string list \<Rightarrow> 'a pfile \<Rightarrow> string \<Rightarrow> error + int" where
  "get_dimension_length cls pfile key =
     bind_res (getattr_file pfile ''dimsensions'') (\<lambda>ds.
     bind_res (subscript ds key) (\<lambda>dm.
       case dm of
         PNone \<Rightarrow>
           bind_res (first_extent cls key (variables pfile)) (\<lambda>r.
             case r of Some n \<Rightarrow> Inr n | None \<Rightarrow> Inr 0)
       | PInt n \<Rightarrow> Inr n
       | _ \<Rightarrow> py_len dm))"

section \<open>The numpy operations the transformations use\<close>

definition swap_idx :: "nat \<Rightarrow> nat \<Rightarrow> 'b list \<Rightarrow> 'b list" where
  "swap_idx i j xs = xs[i := xs ! j, j := xs ! i]"

text \<open>\<^verbatim>\<open>a.swapaxes(i, j)\<close>.\<close>

definition swapaxes :: "'a ndarray \<Rightarrow> nat \<Rightarrow> nat \<Rightarrow> error + 'a ndarray" where
  "swapaxes a i j =
     (if i < length (shape a) \<and> j < length (shape a) then
        let sh = swap_idx i j (shape a)
        in Inr \<lparr>shape = sh, body = tabulate sh (\<lambda>idx. get (body a) (swap_idx i j idx)),
                dtype_char = dtype_char a\<rparr>
      else Inl ValueError)"

text \<open>
  The indices a Python slice \<^verbatim>\<open>start:stop:step\<close> selects on an axis of length \<open>n\<close>
  (\<open>None\<close> is an omitted bound): negative bounds count from the end, bounds are clamped,
  a zero step is a \<^verbatim>\<open>ValueError\<close>.
\<close>

definition slice_indices :: "int option \<Rightarrow> int option \<Rightarrow> int option \<Rightarrow> nat \<Rightarrow> error + nat list" where
  "slice_indices start stop step n =
     (let st = (case step of None \<Rightarrow> 1 | Some s \<Rightarrow> s) in
      if st = 0 then Inl ValueError
      else
        let len = int n;
            lower = (if st < 0 then - 1 else 0);
            upper = (if st < 0 then len - 1 else len);
            clamp = (\<lambda>v. if v < 0 then max (v + len) lower else min v upper);
            b = (case start of None \<Rightarrow> (if st < 0 then upper else lower) | Some v \<Rightarrow> clamp v);
            e = (case stop of None \<Rightarrow> (if st < 0 then lower else upper) | Some v \<Rightarrow> clamp v);
            cnt = (if 0 < st then (if b < e then (e - b - 1) div st + 1 else 0)
                   else (if e < b then (b - e - 1) div (- st) + 1 else 0))
        in Inr (map (\<lambda>k. nat (b + int k * st)) [0..<nat cnt]))"

text \<open>\<^verbatim>\<open>a[start:stop:step]\<close>: the slice applies to the first axis.\<close>

definition getitem_slice ::
  "'a ndarray \<Rightarrow> int option \<Rightarrow> int option \<Rightarrow> int option \<Rightarrow> error + 'a ndarray" where
  "getitem_slice a start stop step =
     (case shape a of
        [] \<Rightarrow> Inl IndexError
      | n # ns \<Rightarrow>
          bind_res (slice_indices start stop step n) (\<lambda>idxs.
            case body a of
              Node xs \<Rightarrow> Inr \<lparr>shape = length idxs # ns, body = Node (map (\<lambda>i. xs ! i) idxs),
                               dtype_char = dtype_char a\<rparr>
            | Leaf x \<Rightarrow> Inl Unmodelled))"

text \<open>
  \<^verbatim>\<open>a[i]\<close> with an integer: one entry of the first axis, of rank one less. On a
  one-dimensional array the result is a scalar and not an array.
\<close>

definition getitem_int :: "'a ndarray \<Rightarrow> int \<Rightarrow> error + 'a ndarray" where
  "getitem_int a i =
     (case shape a of
        [] \<Rightarrow> Inl IndexError
      | n # ns \<Rightarrow>
          let j = (if i < 0 then i + int n else i)
          in if 0 \<le> j \<and> j < int n then
               (case body a of
                  Node xs \<Rightarrow>
                    (if ns = [] then Inl Unmodelled
                     else Inr \<lparr>shape = ns, body = xs ! nat j, dtype_char = dtype_char a\<rparr>)
                | Leaf x \<Rightarrow> Inl Unmodelled)
             else Inl IndexError)"

text \<open>
  \<^verbatim>\<open>a[(slice(None),) * k + (None,)]\<close>: \<open>k\<close> full slices and then a new axis of length 1, which
  lands at position \<open>k\<close>.
\<close>

definition getitem_newaxis :: "'a ndarray \<Rightarrow> nat \<Rightarrow> error + 'a ndarray" where
  "getitem_newaxis a k =
     (if k \<le> length (shape a) then
        let sh = take k (shape a) @ [1] @ drop k (shape a)
        in Inr \<lparr>shape = sh,
                body = tabulate sh (\<lambda>idx. get (body a) (take k idx @ drop (Suc k) idx)),
                dtype_char = dtype_char a\<rparr>
      else Inl IndexError)"

text \<open>
  \<^verbatim>\<open>getattr(np, func)\<close> is resolved in the parameter \<open>np\<close>, the part of the numpy namespace
  that reduces an axis: a name denotes what the function makes of the values along one
  lane of the axis, and the dtype code of its result. \<^verbatim>\<open>func(a, axis = k)\<close> then removes
  axis \<open>k\<close>.
\<close>

type_synonym 'a np_namespace = "string \<Rightarrow> (('a list \<Rightarrow> 'a) \<times> (string \<Rightarrow> string)) option"

definition reduce_axis ::
  "(('a list \<Rightarrow> 'a) \<times> (string \<Rightarrow> string)) \<Rightarrow> 'a ndarray \<Rightarrow> nat \<Rightarrow> error + 'a ndarray" where
  "reduce_axis r a k =
     (if k < length (shape a) then
        let sh = take k (shape a) @ drop (Suc k) (shape a)
        in Inr \<lparr>shape = sh,
                body = tabulate sh (\<lambda>idx.
                  fst r (map (\<lambda>j. get (body a) (take k idx @ [j] @ drop k idx))
                              [0..<shape a ! k])),
                dtype_char = snd r (dtype_char a)\<rparr>
      else Inl ValueError)"

text \<open>The same operations on an attributed array: each result is a new view.\<close>

definition var_swapaxes :: "string list \<Rightarrow> 'a var \<Rightarrow> nat \<Rightarrow> nat \<Rightarrow> error + 'a var" where
  "var_swapaxes cls v i j =
     bind_res (swapaxes (vdata v) i j) (\<lambda>a. new_view cls a (ObjVar v))"

definition var_getitem_slice ::
  "string list \<Rightarrow> 'a var \<Rightarrow> int option \<Rightarrow> int option \<Rightarrow> int option \<Rightarrow> error + 'a var" where
  "var_getitem_slice cls v start stop step =
     bind_res (getitem_slice (vdata v) start stop step) (\<lambda>a. new_view cls a (ObjVar v))"

definition var_getitem_int :: "string list \<Rightarrow> 'a var \<Rightarrow> int \<Rightarrow> error + 'a var" where
  "var_getitem_int cls v i =
     bind_res (getitem_int (vdata v) i) (\<lambda>a. new_view cls a (ObjVar v))"

definition var_getitem_newaxis :: "string list \<Rightarrow> 'a var \<Rightarrow> nat \<Rightarrow> error + 'a var" where
  "var_getitem_newaxis cls v k =
     bind_res (getitem_newaxis (vdata v) k) (\<lambda>a. new_view cls a (ObjVar v))"

definition var_reduce_axis ::
  "string list \<Rightarrow> (('a list \<Rightarrow> 'a) \<times> (string \<Rightarrow> string)) \<Rightarrow> 'a var \<Rightarrow> nat \<Rightarrow> error + 'a var" where
  "var_reduce_axis cls r v k =
     bind_res (reduce_axis r (vdata v) k) (\<lambda>a. new_view cls a (ObjVar v))"

section \<open>Strings: splitting, formatting and evaluating the definitions\<close>

text \<open>\<^verbatim>\<open>s.split(',')\<close>.\<close>

fun split_comma :: "string \<Rightarrow> string list" where
  "split_comma [] = [[]]"
| "split_comma (c # cs) =
     (if c = CHR '','' then [] # split_comma cs
      else (case split_comma cs of [] \<Rightarrow> [[c]] | w # ws \<Rightarrow> (c # w) # ws))"

definition digit_chars :: string where
  "digit_chars = ''0123456789''"

definition isdigit :: "string \<Rightarrow> bool" where
  "isdigit s = (s \<noteq> [] \<and> list_all (\<lambda>c. c \<in> set digit_chars) s)"

text \<open>\<^verbatim>\<open>'%s' % n\<close> for an integer and for \<^verbatim>\<open>None\<close>.\<close>

fun str_nat :: "nat \<Rightarrow> string" where
  "str_nat n = (if n < 10 then [digit_chars ! n] else str_nat (n div 10) @ [digit_chars ! (n mod 10)])"

definition str_int :: "int \<Rightarrow> string" where
  "str_int i = (if i < 0 then CHR ''-'' # str_nat (nat (- i)) else str_nat (nat i))"

definition str_opt :: "int option \<Rightarrow> string" where
  "str_opt v = (case v of None \<Rightarrow> ''None'' | Some i \<Rightarrow> str_int i)"

definition str_bool :: "bool \<Rightarrow> string" where
  "str_bool b = (if b then ''True'' else ''False'')"

text \<open>
  \<^verbatim>\<open>eval\<close> on the texts the definitions are made of: a decimal integer literal, with a
  minus sign or without, and \<^verbatim>\<open>None\<close>. Any other expression is outside the embedding.
\<close>

definition eval_nat :: "string \<Rightarrow> error + nat" where
  "eval_nat s =
     (if isdigit s \<and> (length s = 1 \<or> hd s \<noteq> CHR ''0'') then
        Inr (foldl (\<lambda>acc c. acc * 10 + index_of c digit_chars) 0 s)
      else Inl Unmodelled)"

definition py_eval :: "string \<Rightarrow> error + int option" where
  "py_eval s =
     (if s = ''None'' then Inr None
      else case s of
             [] \<Rightarrow> Inl Unmodelled
           | c # cs \<Rightarrow>
               (if c = CHR ''-'' then bind_res (eval_nat cs) (\<lambda>n. Inr (Some (- int n)))
                else bind_res (eval_nat s) (\<lambda>n. Inr (Some (int n)))))"

fun mapM :: "('x \<Rightarrow> error + 'y) \<Rightarrow> 'x list \<Rightarrow> error + 'y list" where
  "mapM g [] = Inr []"
| "mapM g (x # xs) = bind_res (g x) (\<lambda>y. bind_res (mapM g xs) (\<lambda>ys. Inr (y # ys)))"

section \<open>\<^verbatim>\<open>slice_dim\<close>\<close>

text \<open>
  The first lines of \<^verbatim>\<open>slice_dim\<close>: split, evaluate, default the stop to start + 1 when
  only a start is given, pad with one \<^verbatim>\<open>None\<close>, keep four entries and unpack them.
\<close>

definition parse_slicedef :: "string \<Rightarrow> error + (string \<times> int option \<times> int option \<times> int option)" where
  "parse_slicedef slicedef =
     (case split_comma slicedef of
        [] \<Rightarrow> Inl ValueError
      | dimkey # rest \<Rightarrow>
          bind_res (mapM py_eval rest) (\<lambda>vs.
          bind_res
            (if length vs = 1 then
               (case last vs of None \<Rightarrow> Inl TypeError | Some a \<Rightarrow> Inr (vs @ [Some (a + 1)]))
             else Inr vs)
            (\<lambda>vs1.
              case take 3 (vs1 @ [None]) of
                [dmin, dmax, dstride] \<Rightarrow> Inr (dimkey, dmin, dmax, dstride)
              | _ \<Rightarrow> Inl ValueError)))"

text \<open>
  \<^verbatim>\<open>[key for key in f.dimensions if dimkey == key[:len(dimkey)] and
  key[len(dimkey):].isdigit()]\<close>
\<close>

definition is_sibling :: "string \<Rightarrow> string \<Rightarrow> bool" where
  "is_sibling dimkey key = (dimkey = take (length dimkey) key \<and> isdigit (drop (length dimkey) key))"

definition partial_check :: "'a pfile \<Rightarrow> string \<Rightarrow> string list" where
  "partial_check f dimkey = filter (is_sibling dimkey) (map fst (dimensions f))"

text \<open>One turn of the loop over \<^verbatim>\<open>f.variables.keys()\<close>.\<close>

definition slice_var ::
  "string list \<Rightarrow> string \<Rightarrow> int option \<Rightarrow> int option \<Rightarrow> int option \<Rightarrow> bool
     \<Rightarrow> 'a pfile \<Rightarrow> string \<Rightarrow> error + 'a pfile" where
  "slice_var cls dimkey dmin dmax dstride unlimited f varkey =
     (case map_of (variables f) varkey of
        None \<Rightarrow> Inl KeyError
      | Some var \<Rightarrow>
          bind_res (getattr_var cls var ''dimensions'') (\<lambda>d.
            case d of
              PTuple ds \<Rightarrow>
                (if dimkey \<notin> set ds then Inr f
                 else
                   let axis = index_of dimkey ds in
                   bind_res (ellipsis_var cls var) (\<lambda>v1.
                   bind_res (var_swapaxes cls v1 0 axis) (\<lambda>v2.
                   bind_res (var_getitem_slice cls v2 dmin dmax dstride) (\<lambda>v3.
                   bind_res (var_swapaxes cls v3 0 axis) (\<lambda>vout.
                     if axis < length (shape (vdata vout)) then
                       let newlen = shape (vdata vout) ! axis;
                           newdim = setunlimited (PseudoNetCDFDimension newlen) unlimited
                       in Inr (f\<lparr>dimensions := AList.update dimkey newdim (dimensions f),
                                 variables := AList.update varkey vout (variables f)\<rparr>)
                     else Inl IndexError)))))
            | _ \<Rightarrow> Inl Unmodelled))"

text \<open>
  \<^verbatim>\<open>history = getattr(f, 'history', ''); history += historydef;
  setattr(f, 'history', history)\<close>
\<close>

definition append_history :: "'a pfile \<Rightarrow> string \<Rightarrow> error + 'a pfile" where
  "append_history f historydef =
     bind_res
       (if hasattr_file f ''history'' then getattr_file f ''history'' else Inr (PStr []))
       (\<lambda>history.
          case history of
            PStr h \<Rightarrow> setattr_file f ''history'' (FVal (PStr (h @ historydef)))
          | _ \<Rightarrow> Inl TypeError)"

text \<open>
  \<^verbatim>\<open>slice_dim(f, slicedef, fuzzydim)\<close>. The function calls itself on every fuzzy sibling of
  the dimension; the first argument bounds the depth of these calls, and
  \<open>slice_dim\<close> starts with one more than the number of dimensions.
\<close>

fun slice_dim_fuel :: "nat \<Rightarrow> string list \<Rightarrow> 'a pfile \<Rightarrow> string \<Rightarrow> bool \<Rightarrow> error + 'a pfile" where
  "slice_dim_fuel 0 cls f slicedef fuzzydim = Inl OutOfFuel"
| "slice_dim_fuel (Suc n) cls f slicedef fuzzydim =
     (let historydef = ''slice_dim(f, '' @ slicedef @ '', fuzzydim = '' @ str_bool fuzzydim @ ''); '' in
      bind_res (parse_slicedef slicedef) (\<lambda>(dimkey, dmin, dmax, dstride).
        case map_of (dimensions f) dimkey of
          None \<Rightarrow> Inl KeyError
        | Some dm \<Rightarrow>
            let unlimited = isunlimited dm in
            bind_res
              (if fuzzydim then
                 foldM (\<lambda>f' dimk.
                     slice_dim_fuel n cls f'
                       (dimk @ '','' @ str_opt dmin @ '','' @ str_opt dmax @ '','' @ str_opt dstride)
                       True)
                   f (partial_check f dimkey)
               else Inr f)
              (\<lambda>f1.
            bind_res
              (foldM (slice_var cls dimkey dmin dmax dstride unlimited) f1 (map fst (variables f1)))
              (\<lambda>f2. append_history f2 historydef))))"

definition slice_dim :: "string list \<Rightarrow> 'a pfile \<Rightarrow> string \<Rightarrow> bool \<Rightarrow> error + 'a pfile" where
  "slice_dim cls f slicedef fuzzydim =
     slice_dim_fuel (Suc (length (dimensions f))) cls f slicedef fuzzydim"

section \<open>\<^verbatim>\<open>reduce_dim\<close>\<close>

definition default_metakeys :: "string list" where
  "default_metakeys = [''time'', ''layer'', ''level'', ''latitude'', ''longitude'',
     ''time_bounds'', ''latitude_bounds'', ''longitude_bounds'', ''ROW'', ''COL'', ''LAY'',
     ''TFLAG'', ''ETFLAG'']"

text \<open>\<^verbatim>\<open>sub in s\<close> for two strings.\<close>

fun contains :: "string \<Rightarrow> string \<Rightarrow> bool" where
  "contains sub [] = (sub = [])"
| "contains sub (c # cs) = (take (length sub) (c # cs) = sub \<or> contains sub cs)"

text \<open>\<^verbatim>\<open>'%s' % names\<close> for a list of strings, and \<^verbatim>\<open>', '.join(names)\<close>.\<close>

fun join_comma :: "string list \<Rightarrow> string" where
  "join_comma [] = []"
| "join_comma [x] = x"
| "join_comma (x # y # ys) = x @ '', '' @ join_comma (y # ys)"

definition str_list :: "string list \<Rightarrow> string" where
  "str_list names = ''['' @ join_comma (map (\<lambda>k. [CHR 0x27] @ k @ [CHR 0x27]) names) @ '']''"

fun elems :: "'a nd \<Rightarrow> 'a list" where
  "elems (Leaf x) = [x]"
| "elems (Node xs) = concat (map elems xs)"

text \<open>\<^verbatim>\<open>a.min()\<close> and \<^verbatim>\<open>a.max()\<close> over all elements; an empty array has neither.\<close>

definition array_min :: "('a::linorder) ndarray \<Rightarrow> error + 'a" where
  "array_min a = (case elems (body a) of [] \<Rightarrow> Inl ValueError | x # xs \<Rightarrow> Inr (fold min xs x))"

definition array_max :: "('a::linorder) ndarray \<Rightarrow> error + 'a" where
  "array_max a = (case elems (body a) of [] \<Rightarrow> Inl ValueError | x # xs \<Rightarrow> Inr (fold max xs x))"

text \<open>
  \<^verbatim>\<open>a[0] = lo, hi\<close>: the pair is broadcast over the first entry of the first axis, whose
  last axis must have length 2.
\<close>

definition setitem0_pair :: "'a ndarray \<Rightarrow> 'a \<Rightarrow> 'a \<Rightarrow> error + 'a ndarray" where
  "setitem0_pair a lo hi =
     (case shape a of
        [] \<Rightarrow> Inl IndexError
      | n # ns \<Rightarrow>
          (if n = 0 then Inl IndexError
           else if ns = [] \<or> last ns \<noteq> 2 then Inl ValueError
           else case body a of
                  Node (c # cs) \<Rightarrow>
                    Inr (a\<lparr>body := Node (tabulate ns (\<lambda>idx. if last idx = 0 then lo else hi) # cs)\<rparr>)
                | _ \<Rightarrow> Inl Unmodelled))"

text \<open>
  The assignments under \<^verbatim>\<open>commacount\<close>. With no comma or more than three, none of the
  branches runs and the first use of \<^verbatim>\<open>dimkey\<close> fails. The weight variables are looked
  up here.
\<close>

definition parse_reducedef ::
  "'a pfile \<Rightarrow> string \<Rightarrow> error + (string \<times> string \<times> string option \<times> string option)" where
  "parse_reducedef f reducedef =
     (case split_comma reducedef of
        [dimkey, func] \<Rightarrow> Inr (dimkey, func, None, None)
      | [dimkey, func, numweightkey] \<Rightarrow>
          (case map_of (variables f) numweightkey of
             None \<Rightarrow> Inl KeyError
           | Some numweight \<Rightarrow> Inr (dimkey, func, Some numweightkey, None))
      | [dimkey, func, numweightkey, denweightkey] \<Rightarrow>
          (case map_of (variables f) numweightkey of
             None \<Rightarrow> Inl KeyError
           | Some numweight \<Rightarrow>
               (case map_of (variables f) denweightkey of
                  None \<Rightarrow> Inl KeyError
                | Some denweight \<Rightarrow> Inr (dimkey, func, Some numweightkey, Some denweightkey)))
      | _ \<Rightarrow> Inl UnboundLocalError)"

text \<open>
  \<^verbatim>\<open>getattr(np, func)(var[(slice(None),) * (axis + 1) + (None,)], axis = axis)\<close>
\<close>

definition reduce_unweighted ::
  "string list \<Rightarrow> 'a np_namespace \<Rightarrow> string \<Rightarrow> 'a var \<Rightarrow> nat \<Rightarrow> error + 'a var" where
  "reduce_unweighted cls np func var axis =
     (case np func of
        None \<Rightarrow> Inl AttributeError
      | Some r \<Rightarrow>
          bind_res (var_getitem_newaxis cls var (axis + 1)) (\<lambda>v1.
            var_reduce_axis cls r v1 axis))"

text \<open>
  One turn of the loop over \<^verbatim>\<open>f.variables.keys()\<close>. The two weighted branches multiply
  and divide arrays with broadcasting; they are not part of the embedding.
\<close>

definition reduce_var ::
  "string list \<Rightarrow> ('a::{zero,linorder}) np_namespace \<Rightarrow> string list \<Rightarrow> string \<Rightarrow> string
     \<Rightarrow> string option \<Rightarrow> string option \<Rightarrow> 'a pfile \<Rightarrow> string \<Rightarrow> error + 'a pfile" where
  "reduce_var cls np metakeys dimkey func numweightkey denweightkey f varkey =
     (case map_of (variables f) varkey of
        None \<Rightarrow> Inl KeyError
      | Some var \<Rightarrow>
          bind_res (getattr_var cls var ''dimensions'') (\<lambda>d.
            case d of
              PTuple ds \<Rightarrow>
                (if dimkey \<notin> set ds then Inr f
                 else
                   let axis = index_of dimkey ds in
                   bind_res
                     (if varkey \<notin> set metakeys then
                        (if numweightkey = None then reduce_unweighted cls np func var axis
                         else Inl Unmodelled)
                      else
                        (if \<not> contains ''_bounds'' varkey \<and> \<not> contains ''_bnds'' varkey then
                           reduce_unweighted cls np func var axis
                         else
                           bind_res (reduce_unweighted cls np func var axis) (\<lambda>vout.
                           bind_res (ellipsis_var cls var) (\<lambda>va.
                           bind_res (array_min (vdata va)) (\<lambda>lo.
                           bind_res (ellipsis_var cls var) (\<lambda>vb.
                           bind_res (array_max (vdata vb)) (\<lambda>hi.
                           bind_res (setitem0_pair (vdata vout) lo hi) (\<lambda>a.
                             Inr (vout\<lparr>vdata := a\<rparr>)))))))))
                     (\<lambda>vout.
                   bind_res
                     (PseudoNetCDFVariable cls (dimensions f) varkey (dtype_char (vdata var)) ds
                        (Some (ObjVar vout)) [])
                     (\<lambda>nv. Inr (f\<lparr>variables := AList.update varkey nv (variables f)\<rparr>))))
            | _ \<Rightarrow> Inl Unmodelled))"

text \<open>
  \<^verbatim>\<open>reduce_dim(f, reducedef, fuzzydim, metakeys)\<close>. The calls on the fuzzy siblings leave
  out the last two arguments, so they run with fuzzy matching and with the default
  metadata names. The first argument bounds the depth of the calls, as in \<open>slice_dim_fuel\<close>.
\<close>

fun reduce_dim_fuel ::
  "nat \<Rightarrow> string list \<Rightarrow> ('a::{zero,linorder}) np_namespace \<Rightarrow> 'a pfile \<Rightarrow> string \<Rightarrow> bool
     \<Rightarrow> string list \<Rightarrow> error + 'a pfile" where
  "reduce_dim_fuel 0 cls np f reducedef fuzzydim metakeys0 = Inl OutOfFuel"
| "reduce_dim_fuel (Suc n) cls np f reducedef fuzzydim metakeys0 =
     (let metakeys = filter (\<lambda>k. k \<in> set (map fst (variables f))) metakeys0;
          historydef = ''reduce_dim(f, '' @ reducedef @ '', fuzzydim = '' @ str_bool fuzzydim
                         @ '', metakeys = '' @ str_list metakeys @ ''); ''
      in
      bind_res (parse_reducedef f reducedef) (\<lambda>(dimkey, func, numweightkey, denweightkey).
      bind_res
        (if fuzzydim then
           foldM (\<lambda>f' dimk.
               reduce_dim_fuel n cls np f'
                 (dimk @ '','' @ func
                    @ (case numweightkey of None \<Rightarrow> [] | Some nk \<Rightarrow> '','' @ nk)
                    @ (case denweightkey of None \<Rightarrow> [] | Some dk \<Rightarrow> '','' @ dk))
                 True default_metakeys)
             f (partial_check f dimkey)
         else Inr f)
        (\<lambda>f1.
          case map_of (dimensions f1) dimkey of
            None \<Rightarrow> Inl KeyError
          | Some dm \<Rightarrow>
              let unlimited = isunlimited dm;
                  f2 = createDimension f1 dimkey 1;
                  f3 = (if unlimited then
                          f2\<lparr>dimensions := AList.update dimkey
                               (setunlimited (PseudoNetCDFDimension 1) True) (dimensions f2)\<rparr>
                        else f2)
              in
              bind_res
                (foldM (reduce_var cls np metakeys dimkey func numweightkey denweightkey) f3
                   (map fst (variables f3)))
                (\<lambda>f4. append_history f4 historydef))))"

definition reduce_dim ::
  "string list \<Rightarrow> ('a::{zero,linorder}) np_namespace \<Rightarrow> 'a pfile \<Rightarrow> string \<Rightarrow> bool
     \<Rightarrow> string list \<Rightarrow> error + 'a pfile" where
  "reduce_dim cls np f reducedef fuzzydim metakeys =
     reduce_dim_fuel (Suc (length (dimensions f))) cls np f reducedef fuzzydim metakeys"

section \<open>\<^verbatim>\<open>getvarpnc\<close>\<close>

text \<open>The whitespace \<^verbatim>\<open>s.strip()\<close> removes from both ends.\<close>

definition is_space :: "char \<Rightarrow> bool" where
  "is_space c = (c \<in> set [CHR '' '', CHR 0x09, CHR 0x0A, CHR 0x0B, CHR 0x0C, CHR 0x0D])"

definition py_strip :: "string \<Rightarrow> string" where
  "py_strip s = rev (dropWhile is_space (rev (dropWhile is_space s)))"

definition set_add :: "'k \<Rightarrow> 'k list \<Rightarrow> 'k list" where
  "set_add k ks = (if k \<in> set ks then ks else ks @ [k])"

text \<open>
  The requested names that survive, and the warning when some do not. A Python set has no
  order of its own: here the coordinate keys keep the order in which they were added, and
  the names of a warning are sorted.
\<close>

definition select_varkeys ::
  "'a pfile \<Rightarrow> string list option \<Rightarrow> string list \<Rightarrow> string list \<times> string list" where
  "select_varkeys f varkeys coordkeys =
     (case varkeys of
        None \<Rightarrow> ([], filter (\<lambda>k. k \<notin> set coordkeys) (map fst (variables f)))
      | Some vks \<Rightarrow>
          let newvarkeys = sort (remdups (filter (\<lambda>k. k \<in> set (map fst (variables f))) vks));
              oldvarkeys = sort vks
          in (if newvarkeys \<noteq> oldvarkeys then
                [''Skipping '' @ join_comma
                   (sort (remdups (filter (\<lambda>k. k \<notin> set newvarkeys) oldvarkeys)))]
              else [],
              newvarkeys))"

text \<open>
  The body of \<^verbatim>\<open>for dimk, dimv in zip(var.dimensions, var.shape)\<close>; the state is the new
  file and the coordinate keys. \<^verbatim>\<open>try ... except (KeyError, AttributeError): pass\<close> lets a
  missing coordinate variable and a \<^verbatim>\<open>bounds\<close> that is not a string go by.
\<close>

definition add_var_dim ::
  "string list \<Rightarrow> 'a pfile \<Rightarrow> 'a pfile \<times> string list \<Rightarrow> string \<times> nat
     \<Rightarrow> error + ('a pfile \<times> string list)" where
  "add_var_dim cls f st dd =
     (case st of (outf, coordkeys) \<Rightarrow>
      case dd of (dimk, dimv) \<Rightarrow>
        if map_of (dimensions outf) dimk = None then
          (case map_of (dimensions f) dimk of
             None \<Rightarrow> Inl KeyError
           | Some fd \<Rightarrow>
               let newdimv = (if isunlimited fd
                              then setunlimited (PseudoNetCDFDimension dimv) True
                              else PseudoNetCDFDimension dimv);
                   outf1 = outf\<lparr>dimensions := AList.update dimk newdimv (dimensions outf)\<rparr>;
                   coordkeys1 = set_add dimk coordkeys
               in
               (case map_of (variables f) dimk of
                  None \<Rightarrow> Inr (outf1, coordkeys1)
                | Some tempv \<Rightarrow>
                    (if hasattr_var cls tempv ''bounds'' then
                       (case getattr_var cls tempv ''bounds'' of
                          Inr (PStr b) \<Rightarrow> Inr (outf1, set_add (py_strip b) coordkeys1)
                        | Inr _ \<Rightarrow> Inr (outf1, coordkeys1)
                        | Inl AttributeError \<Rightarrow> Inr (outf1, coordkeys1)
                        | Inl KeyError \<Rightarrow> Inr (outf1, coordkeys1)
                        | Inl e \<Rightarrow> Inl e)
                     else Inr (outf1, coordkeys1))))
        else Inr (outf, coordkeys))"

text \<open>The body of \<^verbatim>\<open>for coordk in coordkeys\<close> inside the loop over the variables.\<close>

definition add_coord_dim :: "'a pfile \<Rightarrow> 'a pfile \<Rightarrow> string \<Rightarrow> 'a pfile" where
  "add_coord_dim f outf coordk =
     (case map_of (dimensions f) coordk of
        None \<Rightarrow> outf
      | Some fd \<Rightarrow>
          if map_of (dimensions outf) coordk = None then
            outf\<lparr>dimensions := AList.update coordk
                   (if isunlimited fd then setunlimited (PseudoNetCDFDimension (d_len fd)) True
                    else PseudoNetCDFDimension (d_len fd))
                   (dimensions outf)\<rparr>
          else outf)"

text \<open>
  \<^verbatim>\<open>propd = dict([(k, getattr(var, k)) for k in var.ncattrs()])\<close> and the call
  \<^verbatim>\<open>outf.createVariable(key, var.dtype.char, var.dimensions, values = var[...], **propd)\<close>.
  A property that has the name of a parameter of \<^verbatim>\<open>createVariable\<close> makes the call a
  \<^verbatim>\<open>TypeError\<close>.
\<close>

definition copy_variable ::
  "string list \<Rightarrow> ('a::zero) pfile \<Rightarrow> string \<Rightarrow> 'a var \<Rightarrow> error + 'a pfile" where
  "copy_variable cls outf key var =
     bind_res (ncattrs_var cls var) (\<lambda>nc.
       case nc of
         PTuple ns \<Rightarrow>
           bind_res (mapM (\<lambda>k. bind_res (getattr_var cls var k) (\<lambda>x. Inr (k, x))) ns) (\<lambda>propd.
           bind_res (getattr_var cls var ''dimensions'') (\<lambda>d.
             case d of
               PTuple ds \<Rightarrow>
                 bind_res (ellipsis_var cls var) (\<lambda>v1.
                   if list_ex (\<lambda>k. k \<in> set [''self'', ''name'', ''type'', ''dimensions'', ''values'']) ns
                   then Inl TypeError
                   else createVariable cls outf key (dtype_char (vdata var)) ds
                          (Some (ObjVar v1)) propd)
             | _ \<Rightarrow> Inl Unmodelled))
       | _ \<Rightarrow> Inl Unmodelled)"

text \<open>
  The body of \<^verbatim>\<open>for varkey in varkeys\<close>. \<^verbatim>\<open>eval(varkey, None, f.variables)\<close> on the name of
  a variable is that variable, and the fallback is the same lookup; a name that Python
  reads as a compound expression is outside the embedding.
\<close>

definition add_variable ::
  "string list \<Rightarrow> ('a::zero) pfile \<Rightarrow> 'a pfile \<times> string list \<Rightarrow> string
     \<Rightarrow> error + ('a pfile \<times> string list)" where
  "add_variable cls f st varkey =
     (case st of (outf, coordkeys) \<Rightarrow>
      case map_of (variables f) varkey of
        None \<Rightarrow> Inl KeyError
      | Some var \<Rightarrow>
          bind_res (getattr_var cls var ''dimensions'') (\<lambda>d.
            case d of
              PTuple ds \<Rightarrow>
                bind_res (foldM (add_var_dim cls f) (outf, coordkeys)
                            (zip ds (shape (vdata var)))) (\<lambda>(outf1, coordkeys1).
                  let outf2 = fold (\<lambda>coordk ou. add_coord_dim f ou coordk) coordkeys1 outf1 in
                  bind_res (copy_variable cls outf2 varkey var) (\<lambda>outf3.
                    Inr (outf3, coordkeys1)))
            | _ \<Rightarrow> Inl Unmodelled))"

definition add_coord_variable ::
  "string list \<Rightarrow> ('a::zero) pfile \<Rightarrow> 'a pfile \<Rightarrow> string \<Rightarrow> error + 'a pfile" where
  "add_coord_variable cls f outf coordkey =
     (case map_of (variables f) coordkey of
        None \<Rightarrow> Inr outf
      | Some coordvar \<Rightarrow> copy_variable cls outf coordkey coordvar)"

text \<open>
  \<^verbatim>\<open>getvarpnc(f, varkeys, coordkeys)\<close>; the result is the warnings given and the new
  file.
\<close>

definition getvarpnc ::
  "string list \<Rightarrow> ('a::zero) pfile \<Rightarrow> string list option \<Rightarrow> string list
     \<Rightarrow> error + (string list \<times> 'a pfile)" where
  "getvarpnc cls f varkeys coordkeys0 =
     (let coordkeys = remdups coordkeys0 in
      case select_varkeys f varkeys coordkeys of (warnings, varkeys1) \<Rightarrow>
        let outf = createDimension PseudoNetCDFFile_new ''nv'' 2 in
        bind_res
          (foldM (\<lambda>ou propkey.
               bind_res (getattr_file f propkey) (\<lambda>x. setattr_file ou propkey (FVal x)))
             outf (ncattrs f))
          (\<lambda>outf1.
        bind_res (foldM (add_variable cls f) (outf1, coordkeys) varkeys1) (\<lambda>(outf2, coordkeys2).
        bind_res (foldM (add_coord_variable cls f) outf2 coordkeys2) (\<lambda>outf3.
          Inr (warnings, outf3)))))"

section \<open>Datasets as objects\<close>

text \<open>
  A Python name holds a reference. The heap is the list of the Dataset objects, a
  reference is a position in it. \<^verbatim>\<open>slice_dim\<close> and \<^verbatim>\<open>reduce_dim\<close> assign into
  \<^verbatim>\<open>f.variables\<close> and \<^verbatim>\<open>f.dimensions\<close>, set \<^verbatim>\<open>f.history\<close> and end with \<^verbatim>\<open>return f\<close>;
  \<^verbatim>\<open>getvarpnc\<close> makes \<^verbatim>\<open>outf = PseudoNetCDFFile()\<close>, fills it and returns it.
\<close>

type_synonym 'a heap = "'a pfile list"

definition slice_dim_ref ::
  "string list \<Rightarrow> 'a heap \<Rightarrow> nat \<Rightarrow> string \<Rightarrow> bool \<Rightarrow> error + ('a heap \<times> nat)" where
  "slice_dim_ref cls h r slicedef fuzzydim =
     (if r < length h then
        bind_res (slice_dim cls (h ! r) slicedef fuzzydim) (\<lambda>f'. Inr (h[r := f'], r))
      else Inl Unmodelled)"

definition reduce_dim_ref ::
  "string list \<Rightarrow> ('a::{zero,linorder}) np_namespace \<Rightarrow> 'a heap \<Rightarrow> nat \<Rightarrow> string \<Rightarrow> bool
     \<Rightarrow> string list \<Rightarrow> error + ('a heap \<times> nat)" where
  "reduce_dim_ref cls np h r reducedef fuzzydim metakeys =
     (if r < length h then
        bind_res (reduce_dim cls np (h ! r) reducedef fuzzydim metakeys) (\<lambda>f'. Inr (h[r := f'], r))
      else Inl Unmodelled)"

definition getvarpnc_ref ::
  "string list \<Rightarrow> ('a::zero) heap \<Rightarrow> nat \<Rightarrow> string list option \<Rightarrow> string list
     \<Rightarrow> error + (string list \<times> 'a heap \<times> nat)" where
  "getvarpnc_ref cls h r varkeys coordkeys =
     (if r < length h then
        bind_res (getvarpnc cls (h ! r) varkeys coordkeys) (\<lambda>(warnings, outf).
          Inr (warnings, h @ [outf], length h))
      else Inl Unmodelled)"

section \<open>Well-formed attributed arrays, and the examples\<close>

text \<open>
  What \<^verbatim>\<open>__new__\<close>, \<^verbatim>\<open>__setattr__\<close> and \<^verbatim>\<open>__array_finalize__\<close> keep true of an instance:
  \<^verbatim>\<open>_ncattrs\<close> is a tuple of distinct names, none of them the class's own or marked with
  the underscore, each with a value in \<^verbatim>\<open>__dict__\<close>; and \<^verbatim>\<open>dimensions\<close> is set.
\<close>

definition user_name :: "string list \<Rightarrow> string \<Rightarrow> bool" where
  "user_name cls k = (k \<notin> set cls \<and> take 1 k \<noteq> ''_'')"

definition wf_var :: "string list \<Rightarrow> 'a var \<Rightarrow> bool" where
  "wf_var cls v =
     (''_ncattrs'' \<notin> set cls \<and> ''dimensions'' \<notin> set cls \<and>
      (case map_of (vdict v) ''_ncattrs'' of
         Some (PTuple ns) \<Rightarrow>
           distinct ns \<and> list_all (\<lambda>k. user_name cls k \<and> map_of (vdict v) k \<noteq> None) ns
       | _ \<Rightarrow> False) \<and>
      map_of (vdict v) ''dimensions'' \<noteq> None)"

text \<open>The user attributes of an array: the names of \<^verbatim>\<open>ncattrs()\<close>, each with its value.\<close>

definition user_attrs :: "string list \<Rightarrow> 'a var \<Rightarrow> (string \<times> (error + pyval)) list" where
  "user_attrs cls v =
     (case ncattrs_var cls v of
        Inr (PTuple ns) \<Rightarrow> map (\<lambda>k. (k, getattr_var cls v k)) ns
      | _ \<Rightarrow> [])"

definition entry :: "'a var \<Rightarrow> string \<Rightarrow> string \<times> pyval" where
  "entry p k = (k, the (map_of (vdict p) k))"

definition view_names :: "string list \<Rightarrow> string list" where
  "view_names ns = (if ''dimensions'' \<in> set ns then ns else ns @ [''dimensions''])"

definition ex_cls :: "string list" where
  "ex_cls = [''shape'', ''ndim'', ''size'', ''dtype'', ''T'', ''ncattrs'', ''getValue'',
     ''assignValue'']"

definition ex_parent :: "int var" where
  "ex_parent =
     \<lparr>vdata = \<lparr>shape = [2, 3],
               body = Node [Node [Leaf 0, Leaf 1, Leaf 2], Node [Leaf 3, Leaf 4, Leaf 5]],
               dtype_char = ''i''\<rparr>,
      vdict = [(''_ncattrs'', PTuple [''units'']), (''typecode'', PThunk ''i''),
               (''dimensions'', PTuple [''TIME'', ''LAY'']), (''units'', PStr ''ppbv'')]\<rparr>"

definition ex_row :: "int var" where
  "ex_row =
     \<lparr>vdata = \<lparr>shape = [3], body = Node [Leaf 0, Leaf 1, Leaf 2], dtype_char = ''i''\<rparr>,
      vdict = [(''_ncattrs'', PTuple [''units'']), (''units'', PStr ''ppbv''),
               (''dimensions'', PTuple [''TIME'', ''LAY''])]\<rparr>"

definition ex_registry :: "(string, nat, nat) registry" where
  "ex_registry = registry_init (\<lambda>k w. (Inr (length k), Suc w)) [''NO'', ''O3'']"

definition slice_axis ::
  "'a ndarray \<Rightarrow> nat \<Rightarrow> int option \<Rightarrow> int option \<Rightarrow> int option \<Rightarrow> error + 'a ndarray" where
  "slice_axis a axis dmin dmax dstride =
     bind_res (swapaxes a 0 axis) (\<lambda>b.
     bind_res (getitem_slice b dmin dmax dstride) (\<lambda>c. swapaxes c 0 axis))"

definition view_dict :: "'a var \<Rightarrow> (string \<times> pyval) list" where
  "view_dict p =
     (case map_of (vdict p) ''_ncattrs'' of
        Some (PTuple ns) \<Rightarrow> (''_ncattrs'', PTuple ns) # map (entry p) (view_names ns)
      | _ \<Rightarrow> [])"

definition var_dims :: "'a var \<Rightarrow> string list" where
  "var_dims v = (case map_of (vdict v) ''dimensions'' of Some (PTuple ds) \<Rightarrow> ds | _ \<Rightarrow> [])"

definition shape_matches :: "'a pfile \<Rightarrow> 'a var \<Rightarrow> bool" where
  "shape_matches f v =
     (map (\<lambda>d. map_option d_len (map_of (dimensions f) d)) (var_dims v)
        = map Some (shape (vdata v)))"

definition var_ok :: "string list \<Rightarrow> 'a pfile \<Rightarrow> 'a var \<Rightarrow> bool" where
  "var_ok cls f v =
     (wf_var cls v \<and> wf_ndarray (vdata v) \<and>
      (case map_of (vdict v) ''dimensions'' of Some (PTuple ds) \<Rightarrow> True | _ \<Rightarrow> False) \<and>
      shape_matches f v)"

definition history_ok :: "'a pfile \<Rightarrow> bool" where
  "history_ok f = (case map_of (fdict f) ''history'' of None \<Rightarrow> True | Some (PStr h) \<Rightarrow> True | _ \<Rightarrow> False)"

definition history_of :: "'a pfile \<Rightarrow> string" where
  "history_of f = (case map_of (fdict f) ''history'' of Some (PStr h) \<Rightarrow> h | _ \<Rightarrow> [])"

definition file_ok :: "string list \<Rightarrow> 'a pfile \<Rightarrow> bool" where
  "file_ok cls f =
     (distinct (map fst (variables f)) \<and> list_all (\<lambda>kv. var_ok cls f (snd kv)) (variables f)
      \<and> history_ok f)"

definition as_view :: "'a var \<Rightarrow> 'a ndarray \<Rightarrow> 'a var" where
  "as_view p a = \<lparr>vdata = a, vdict = view_dict p\<rparr>"

definition same_var :: "string list \<Rightarrow> 'a var \<Rightarrow> 'a var \<Rightarrow> bool" where
  "same_var cls v v' =
     (vdata v' = vdata v \<and> user_attrs cls v' = user_attrs cls v \<and>
      getattr_var cls v' ''dimensions'' = getattr_var cls v ''dimensions'')"

definition sliced :: "string \<Rightarrow> int option \<Rightarrow> int option \<Rightarrow> int option \<Rightarrow> 'a var \<Rightarrow> 'a var" where
  "sliced dimkey dmin dmax dstride v =
     (if dimkey \<in> set (var_dims v) then
        as_view v (case slice_axis (vdata v) (index_of dimkey (var_dims v)) dmin dmax dstride of
                     Inr a' \<Rightarrow> a' | Inl e \<Rightarrow> vdata v)
      else v)"

definition slice_length :: "int option \<Rightarrow> int option \<Rightarrow> int option \<Rightarrow> nat \<Rightarrow> nat" where
  "slice_length dmin dmax dstride n =
     (case slice_indices dmin dmax dstride n of Inr idxs \<Rightarrow> length idxs | Inl e \<Rightarrow> 0)"

definition ex_file :: "int pfile" where
  "ex_file =
     \<lparr>variables =
        [(''v'', \<lparr>vdata = \<lparr>shape = [2, 3],
                          body = Node [Node [Leaf 1, Leaf 2, Leaf 3], Node [Leaf 4, Leaf 5, Leaf 6]],
                          dtype_char = ''i''\<rparr>,
                 vdict = [(''_ncattrs'', PTuple [''units'']), (''typecode'', PThunk ''i''),
                          (''dimensions'', PTuple [''y'', ''x'']), (''units'', PStr ''ppbv'')]\<rparr>),
         (''t'', \<lparr>vdata = \<lparr>shape = [2], body = Node [Leaf 10, Leaf 20], dtype_char = ''i''\<rparr>,
                 vdict = [(''_ncattrs'', PTuple []), (''typecode'', PThunk ''i''),
                          (''dimensions'', PTuple [''y''])]\<rparr>)],
      dimensions = [(''y'', \<lparr>d_len = 2, d_unlimited = False\<rparr>),
                    (''x'', \<lparr>d_len = 3, d_unlimited = True\<rparr>)],
      f_ncattrs = [''fish''],
      fdict = [(''fish'', PInt 2)]\<rparr>"

definition ex_dims_only :: "int pfile" where
  "ex_dims_only =
     \<lparr>variables = [], dimensions = [(''x'', \<lparr>d_len = 3, d_unlimited = False\<rparr>)],
      f_ncattrs = [], fdict = []\<rparr>"

definition reduce_data ::
  "(('a list \<Rightarrow> 'a) \<times> (string \<Rightarrow> string)) \<Rightarrow> 'a ndarray \<Rightarrow> nat \<Rightarrow> error + 'a ndarray" where
  "reduce_data r a axis =
     bind_res (getitem_newaxis a (axis + 1)) (\<lambda>b. reduce_axis r b axis)"

definition rebuilt :: "'a var \<Rightarrow> 'a ndarray \<Rightarrow> string \<Rightarrow> string list \<Rightarrow> 'a var" where
  "rebuilt var a c ds =
     \<lparr>vdata = a,
      vdict = AList.update ''dimensions'' (PTuple ds)
                (AList.update ''typecode'' (PThunk c) (view_dict var))\<rparr>"

definition new_variable ::
  "string list \<Rightarrow> ('a::{zero,linorder}) np_namespace \<Rightarrow> string list \<Rightarrow> string \<Rightarrow> string
     \<Rightarrow> string option \<Rightarrow> string option \<Rightarrow> (string \<times> dimension) list \<Rightarrow> string \<Rightarrow> 'a var
     \<Rightarrow> string list \<Rightarrow> error + 'a var" where
  "new_variable cls np metakeys dimkey func numweightkey denweightkey pdims varkey var ds =
     (let axis = index_of dimkey ds in
      bind_res
        (if varkey \<notin> set metakeys then
           (if numweightkey = None then reduce_unweighted cls np func var axis
            else Inl Unmodelled)
         else
           (if \<not> contains ''_bounds'' varkey \<and> \<not> contains ''_bnds'' varkey then
              reduce_unweighted cls np func var axis
            else
              bind_res (reduce_unweighted cls np func var axis) (\<lambda>vout.
              bind_res (ellipsis_var cls var) (\<lambda>va.
              bind_res (array_min (vdata va)) (\<lambda>lo.
              bind_res (ellipsis_var cls var) (\<lambda>vb.
              bind_res (array_max (vdata vb)) (\<lambda>hi.
              bind_res (setitem0_pair (vdata vout) lo hi) (\<lambda>a.
                Inr (vout\<lparr>vdata := a\<rparr>)))))))))
        (\<lambda>vout. PseudoNetCDFVariable cls pdims varkey (dtype_char (vdata var)) ds
                   (Some (ObjVar vout)) []))"

definition bounds_ready :: "'a var \<Rightarrow> nat \<Rightarrow> bool" where
  "bounds_ready v axis =
     (elems (body (vdata v)) \<noteq> [] \<and>
      (case (shape (vdata v))[axis := 1] of
         [] \<Rightarrow> False
       | n # ns \<Rightarrow> n \<noteq> 0 \<and> ns \<noteq> [] \<and> last ns = 2))"

definition reduced_along ::
  "(('a list \<Rightarrow> 'a) \<times> (string \<Rightarrow> string)) \<Rightarrow> nat \<Rightarrow> 'a ndarray \<Rightarrow> 'a ndarray \<Rightarrow> bool" where
  "reduced_along r axis a a' =
     (shape a' = (shape a)[axis := 1] \<and>
      body a' = tabulate (shape a')
                  (\<lambda>idx. fst r (map (\<lambda>j. get (body a) (idx[axis := j])) [0..<shape a ! axis])))"

definition reduced_var ::
  "string list \<Rightarrow> ('a::{zero,linorder}) np_namespace \<Rightarrow> string list \<Rightarrow> string \<Rightarrow> string
     \<Rightarrow> string \<times> 'a var \<Rightarrow> 'a var" where
  "reduced_var cls np metakeys dimkey func kv =
     (if dimkey \<in> set (var_dims (snd kv)) then
        (case new_variable cls np metakeys dimkey func None None [] (fst kv) (snd kv)
                (var_dims (snd kv)) of
           Inr nv \<Rightarrow> nv
         | Inl e \<Rightarrow> snd kv)
      else snd kv)"

definition ex_mean :: "rat list \<Rightarrow> rat" where
  "ex_mean xs = sum_list xs / of_nat (length xs)"

definition ex_np :: "rat np_namespace" where
  "ex_np name =
     (if name = ''mean'' then Some (ex_mean, \<lambda>c. ''d'')
      else if name = ''sum'' then Some (sum_list, \<lambda>c. c)
      else None)"

definition ex_series :: "rat pfile" where
  "ex_series =
     \<lparr>variables =
        [(''c'', \<lparr>vdata = \<lparr>shape = [2, 3],
                          body = Node [Node [Leaf 1, Leaf 2, Leaf 3], Node [Leaf 3, Leaf 4, Leaf 8]],
                          dtype_char = ''f''\<rparr>,
                 vdict = [(''_ncattrs'', PTuple [''units'']), (''typecode'', PThunk ''f''),
                          (''dimensions'', PTuple [''time'', ''z'']), (''units'', PStr ''ppbv'')]\<rparr>),
         (''time_bounds'',
               \<lparr>vdata = \<lparr>shape = [2, 2],
                          body = Node [Node [Leaf 0, Leaf 1], Node [Leaf 1, Leaf 2]],
                          dtype_char = ''f''\<rparr>,
                 vdict = [(''_ncattrs'', PTuple []), (''typecode'', PThunk ''f''),
                          (''dimensions'', PTuple [''time'', ''nv''])]\<rparr>)],
      dimensions = [(''time'', \<lparr>d_len = 2, d_unlimited = True\<rparr>),
                    (''z'', \<lparr>d_len = 3, d_unlimited = False\<rparr>),
                    (''nv'', \<lparr>d_len = 2, d_unlimited = False\<rparr>)],
      f_ncattrs = [],
      fdict = []\<rparr>"

definition ex_sib :: "rat pfile" where
  "ex_sib =
     \<lparr>variables =
        [(''v'', \<lparr>vdata = \<lparr>shape = [2, 2],
                          body = Node [Node [Leaf 1, Leaf 2], Node [Leaf 3, Leaf 5]],
                          dtype_char = ''f''\<rparr>,
                 vdict = [(''_ncattrs'', PTuple []), (''typecode'', PThunk ''f''),
                          (''dimensions'', PTuple [''x'', ''x0''])]\<rparr>)],
      dimensions = [(''x'', \<lparr>d_len = 2, d_unlimited = False\<rparr>),
                    (''x0'', \<lparr>d_len = 2, d_unlimited = False\<rparr>)],
      f_ncattrs = [],
      fdict = []\<rparr>"

definition aggregated ::
  "(('a list \<Rightarrow> 'a) \<times> (string \<Rightarrow> string)) \<Rightarrow> string \<Rightarrow> nat \<Rightarrow> 'a var \<Rightarrow> 'a var \<Rightarrow> bool" where
  "aggregated r dimkey L v v' =
     (shape (vdata v) ! index_of dimkey (var_dims v) = L \<and>
      reduced_along r (index_of dimkey (var_dims v)) (vdata v) (vdata v'))"

definition ex_shards :: "int pfile" where
  "ex_shards =
     \<lparr>variables =
        [(''a'', \<lparr>vdata = \<lparr>shape = [4], body = Node [Leaf 0, Leaf 1, Leaf 2, Leaf 3],
                          dtype_char = ''i''\<rparr>,
                 vdict = [(''_ncattrs'', PTuple []), (''typecode'', PThunk ''i''),
                          (''dimensions'', PTuple [''x''])]\<rparr>),
         (''b'', \<lparr>vdata = \<lparr>shape = [4], body = Node [Leaf 0, Leaf 1, Leaf 2, Leaf 3],
                          dtype_char = ''i''\<rparr>,
                 vdict = [(''_ncattrs'', PTuple []), (''typecode'', PThunk ''i''),
                          (''dimensions'', PTuple [''x1''])]\<rparr>),
         (''c'', \<lparr>vdata = \<lparr>shape = [4], body = Node [Leaf 0, Leaf 1, Leaf 2, Leaf 3],
                          dtype_char = ''i''\<rparr>,
                 vdict = [(''_ncattrs'', PTuple []), (''typecode'', PThunk ''i''),
                          (''dimensions'', PTuple [''x11''])]\<rparr>)],
      dimensions = [(''x'', \<lparr>d_len = 4, d_unlimited = False\<rparr>),
                    (''x1'', \<lparr>d_len = 4, d_unlimited = False\<rparr>),
                    (''x11'', \<lparr>d_len = 4, d_unlimited = False\<rparr>)],
      f_ncattrs = [],
      fdict = []\<rparr>"

definition dim_lengths :: "'a pfile \<Rightarrow> (string \<times> nat) list" where
  "dim_lengths f = map (\<lambda>kd. (fst kd, d_len (snd kd))) (dimensions f)"

definition var_elems :: "'a pfile \<Rightarrow> (string \<times> 'a list) list" where
  "var_elems f = map (\<lambda>kv. (fst kv, elems (body (vdata (snd kv))))) (variables f)"

definition ex_longer_sibling :: "int pfile" where
  "ex_longer_sibling =
     \<lparr>variables =
        [(''v'', \<lparr>vdata = \<lparr>shape = [3], body = Node [Leaf 1, Leaf 2, Leaf 3], dtype_char = ''i''\<rparr>,
                 vdict = [(''_ncattrs'', PTuple []), (''typecode'', PThunk ''i''),
                          (''dimensions'', PTuple [''x''])]\<rparr>),
         (''w'', \<lparr>vdata = \<lparr>shape = [4], body = Node [Leaf 1, Leaf 2, Leaf 3, Leaf 4],
                          dtype_char = ''i''\<rparr>,
                 vdict = [(''_ncattrs'', PTuple []), (''typecode'', PThunk ''i''),
                          (''dimensions'', PTuple [''x0''])]\<rparr>)],
      dimensions = [(''x'', \<lparr>d_len = 3, d_unlimited = False\<rparr>),
                    (''x0'', \<lparr>d_len = 4, d_unlimited = False\<rparr>)],
      f_ncattrs = [],
      fdict = []\<rparr>"

definition kw_free :: "'a var \<Rightarrow> bool" where
  "kw_free v =
     (case map_of (vdict v) ''_ncattrs'' of
        Some (PTuple ns) \<Rightarrow>
          list_all (\<lambda>k. k \<notin> set [''self'', ''name'', ''type'', ''dimensions'', ''values'']) ns
      | _ \<Rightarrow> False)"

definition coord_bounds :: "'a pfile \<Rightarrow> string \<Rightarrow> string list" where
  "coord_bounds f d =
     (case map_of (variables f) d of
        None \<Rightarrow> []
      | Some tv \<Rightarrow> (case map_of (vdict tv) ''bounds'' of Some (PStr b) \<Rightarrow> [py_strip b] | _ \<Rightarrow> []))"

definition req_dims :: "'a pfile \<Rightarrow> string list \<Rightarrow> string list" where
  "req_dims f ks =
     concat (map (\<lambda>k. case map_of (variables f) k of Some v \<Rightarrow> var_dims v | None \<Rightarrow> []) ks)"

definition coord_keys :: "'a pfile \<Rightarrow> string list \<Rightarrow> string list" where
  "coord_keys f ds =
     filter (\<lambda>d. d \<noteq> ''nv'') ds @ concat (map (coord_bounds f) (filter (\<lambda>d. d \<noteq> ''nv'') ds))"

definition dims_inv :: "'a pfile \<Rightarrow> 'a pfile \<Rightarrow> string list \<Rightarrow> string list \<Rightarrow> bool" where
  "dims_inv f outf ck Dn =
     (fst ` set (dimensions outf) = insert ''nv'' (set Dn)
      \<and> map_of (dimensions outf) ''nv'' = Some (PseudoNetCDFDimension 2)
      \<and> (\<forall>d \<in> set Dn. d \<noteq> ''nv'' \<longrightarrow> map_of (dimensions outf) d = map_of (dimensions f) d)
      \<and> set ck = set (coord_keys f Dn))"

definition attrs_ok :: "'a pfile \<Rightarrow> bool" where
  "attrs_ok f =
     list_all (\<lambda>k. take 1 k \<noteq> ''_'' \<and> k \<notin> set [''dimensions'', ''variables'', ''groups'']
                  \<and> map_of (fdict f) k \<noteq> None) (f_ncattrs f)"

definition copies_of :: "string list \<Rightarrow> 'a pfile \<Rightarrow> 'a pfile \<Rightarrow> bool" where
  "copies_of cls f outf =
     list_all (\<lambda>kv. case map_of (variables f) (fst kv) of
                       None \<Rightarrow> False
                     | Some v \<Rightarrow> same_var cls v (snd kv)) (variables outf)"

definition surviving :: "'a pfile \<Rightarrow> string list \<Rightarrow> string list" where
  "surviving f vks = filter (\<lambda>k. k \<in> set (map fst (variables f))) vks"

definition skipped :: "'a pfile \<Rightarrow> string list \<Rightarrow> string list" where
  "skipped f vks = filter (\<lambda>k. k \<notin> set (map fst (variables f))) vks"

definition ex_cf :: "string \<Rightarrow> int pfile" where
  "ex_cf b =
     \<lparr>variables =
        [(''O3'', \<lparr>vdata = \<lparr>shape = [2], body = Node [Leaf 30, Leaf 40], dtype_char = ''i''\<rparr>,
                  vdict = [(''_ncattrs'', PTuple [''units'']), (''typecode'', PThunk ''i''),
                           (''dimensions'', PTuple [''time'']), (''units'', PStr ''ppbv'')]\<rparr>),
         (''time'', \<lparr>vdata = \<lparr>shape = [2], body = Node [Leaf 0, Leaf 1], dtype_char = ''i''\<rparr>,
                  vdict = [(''_ncattrs'', PTuple [''bounds'']), (''typecode'', PThunk ''i''),
                           (''dimensions'', PTuple [''time'']), (''bounds'', PStr b)]\<rparr>),
         (''time_bnds'',
                 \<lparr>vdata = \<lparr>shape = [2, 2],
                            body = Node [Node [Leaf 0, Leaf 1], Node [Leaf 1, Leaf 2]],
                            dtype_char = ''i''\<rparr>,
                  vdict = [(''_ncattrs'', PTuple []), (''typecode'', PThunk ''i''),
                           (''dimensions'', PTuple [''time'', ''bnds''])]\<rparr>)],
      dimensions = [(''time'', \<lparr>d_len = 2, d_unlimited = True\<rparr>),
                    (''bnds'', \<lparr>d_len = 2, d_unlimited = False\<rparr>)],
      f_ncattrs = [''title''],
      fdict = [(''title'', PStr ''demo'')]\<rparr>"

definition var_names :: "'a pfile \<Rightarrow> string list" where
  "var_names f = map fst (variables f)"

section \<open>Properties\<close>

lemma bind_res_simps [simp]:
  "bind_res (Inl e) g = Inl e" "bind_res (Inr x) g = g x"
  by (simp_all add: bind_res_def)

subsection \<open>Attribute propagation\<close>

lemma update_append_new:
  "k \<notin> fst ` set xs \<Longrightarrow> AList.update k x xs = xs @ [(k, x)]"
  by (induction xs) auto

lemma map_of_entries:
  "k \<in> set ks \<Longrightarrow> map_of (map (entry p) ks) k = Some (the (map_of (vdict p) k))"
  by (induction ks) (auto simp: entry_def)

lemma map_of_entries_None:
  "k \<notin> set ks \<Longrightarrow> map_of (map (entry p) ks) k = None"
  by (induction ks) (auto simp: entry_def)

lemma copy_step:
  assumes "k \<notin> set cls" "take 1 k \<noteq> ''_''" "k \<notin> set ks" "''_ncattrs'' \<notin> set cls"
    "map_of (vdict p) k = Some x"
  shows "setattr_var cls \<lparr>vdata = a, vdict = (''_ncattrs'', PTuple ks) # map (entry p) ks\<rparr> k x
     = Inr \<lparr>vdata = a, vdict = (''_ncattrs'', PTuple (ks @ [k])) # map (entry p) (ks @ [k])\<rparr>"
proof -
  have k: "k \<noteq> ''_ncattrs''" using assms(2) by auto
  have nk: "k \<notin> fst ` set (map (entry p) ks)" using assms(3) by (auto simp: entry_def)
  then have m: "map_of (map (entry p) ks) k = None" by (simp add: map_of_eq_None_iff)
  show ?thesis using assms k m nk
    by (simp add: setattr_var_def hasattr_var_def getattr_var_def ndarray_setattr_def
        update_append_new entry_def)
qed

lemma copy_loop:
  assumes "''_ncattrs'' \<notin> set cls"
  shows "distinct (ks @ ns) \<Longrightarrow>
    list_all (\<lambda>k. user_name cls k \<and> map_of (vdict p) k \<noteq> None) ns \<Longrightarrow>
    copy_ncattrs cls \<lparr>vdata = a, vdict = (''_ncattrs'', PTuple ks) # map (entry p) ks\<rparr>
        (ObjVar p) ns
     = Inr \<lparr>vdata = a, vdict = (''_ncattrs'', PTuple (ks @ ns)) # map (entry p) (ks @ ns)\<rparr>"
proof (induction ns arbitrary: ks)
  case Nil
  then show ?case by (simp add: copy_ncattrs_def)
next
  case (Cons k ns)
  from Cons.prems obtain x where x: "map_of (vdict p) k = Some x" by auto
  have u: "k \<notin> set cls" "take 1 k \<noteq> ''_''" using Cons.prems by (auto simp: user_name_def)
  have nk: "k \<notin> set ks" using Cons.prems by auto
  have g: "getattr_obj cls (ObjVar p) k = Inr x"
    using x u by (simp add: getattr_obj_def getattr_var_def)
  have d: "distinct ((ks @ [k]) @ ns)" using Cons.prems by auto
  have l: "list_all (\<lambda>k. user_name cls k \<and> map_of (vdict p) k \<noteq> None) ns"
    using Cons.prems by auto
  show ?case
    using Cons.IH[OF d l] copy_step[OF u nk assms x, of a] g
    by (simp add: copy_ncattrs_def)
qed

lemma finalize_dimensions_view:
  assumes cls: "''_ncattrs'' \<notin> set cls" "''dimensions'' \<notin> set cls"
    and d: "map_of (vdict p) ''dimensions'' = Some d"
    and dist: "distinct ns"
  shows "finalize_dimensions cls
           \<lparr>vdata = a, vdict = (''_ncattrs'', PTuple ns) # map (entry p) ns\<rparr> (ObjVar p)
         = Inr \<lparr>vdata = a, vdict = (''_ncattrs'', PTuple ns) # map (entry p) (view_names ns)\<rparr>"
proof (cases "''dimensions'' \<in> set ns")
  case True
  then show ?thesis
    using cls by (simp add: finalize_dimensions_def hasattr_var_def view_names_def map_of_entries)
next
  case False
  have st: "setattr_var cls \<lparr>vdata = a, vdict = (''_ncattrs'', PTuple ns) # map (entry p) ns\<rparr>
              ''dimensions'' d
            = Inr \<lparr>vdata = a, vdict = (''_ncattrs'', PTuple (ns @ [''dimensions'']))
                     # map (entry p) (ns @ [''dimensions''])\<rparr>"
    using copy_step[OF cls(2) _ False cls(1) d, of a] by simp
  show ?thesis
    using cls d False st
    by (simp add: finalize_dimensions_def hasattr_var_def hasattr_obj_def getattr_obj_def
        getattr_var_def view_names_def map_of_entries_None setattr_var_def ndarray_setattr_def)
qed

text \<open>
  The view numpy makes of a well-formed attributed array: the new data, the parent's
  \<^verbatim>\<open>_ncattrs\<close>, the attributes it names and the parent's \<^verbatim>\<open>dimensions\<close>. Nothing else of the
  parent's \<^verbatim>\<open>__dict__\<close> is taken over; \<^verbatim>\<open>typecode\<close> is not.
\<close>

lemma new_view_of_var:
  assumes "wf_var cls p" "map_of (vdict p) ''_ncattrs'' = Some (PTuple ns)"
  shows "new_view cls a (ObjVar p)
         = Inr \<lparr>vdata = a, vdict = (''_ncattrs'', PTuple ns) # map (entry p) (view_names ns)\<rparr>"
proof -
  from assms have cls: "''_ncattrs'' \<notin> set cls" "''dimensions'' \<notin> set cls"
    and dist: "distinct ns"
    and all: "list_all (\<lambda>k. user_name cls k \<and> map_of (vdict p) k \<noteq> None) ns"
    by (auto simp: wf_var_def)
  from assms obtain d where d: "map_of (vdict p) ''dimensions'' = Some d"
    by (auto simp: wf_var_def)
  have c: "copy_ncattrs cls \<lparr>vdata = a, vdict = [(''_ncattrs'', PTuple [])]\<rparr> (ObjVar p) ns
           = Inr \<lparr>vdata = a, vdict = (''_ncattrs'', PTuple ns) # map (entry p) ns\<rparr>"
    using copy_loop[OF cls(1), of "[]" ns p a] dist all by simp
  show ?thesis
    using cls assms(2) c finalize_dimensions_view[OF cls d dist, of a]
    by (simp add: new_view_def array_finalize_def hasattr_var_def setattr_var_def
        ndarray_setattr_def hasattr_obj_def getattr_obj_def getattr_var_def)
qed

lemma view_meta_lookup:
  assumes "wf_var cls p" "map_of (vdict p) ''_ncattrs'' = Some (PTuple ns)"
    and k: "k \<in> set ns \<or> k = ''dimensions''"
  shows "map_of ((''_ncattrs'', PTuple ns) # map (entry p) (view_names ns)) k = map_of (vdict p) k"
proof -
  have kn: "k \<noteq> ''_ncattrs''" using assms by (auto simp: wf_var_def list_all_iff user_name_def)
  have kin: "k \<in> set (view_names ns)" using k by (auto simp: view_names_def)
  have "map_of (vdict p) k \<noteq> None" using assms by (auto simp: wf_var_def list_all_iff)
  then show ?thesis using kn map_of_entries[OF kin, of p] by auto
qed

lemma wf_var_ncattrs:
  "wf_var cls p \<Longrightarrow> \<exists>ns. map_of (vdict p) ''_ncattrs'' = Some (PTuple ns)"
  by (auto simp: wf_var_def split: option.splits pyval.splits)

lemma new_view_wf:
  assumes "wf_var cls p" "new_view cls a (ObjVar p) = Inr d"
  shows "wf_var cls d \<and> user_attrs cls d = user_attrs cls p
       \<and> getattr_var cls d ''dimensions'' = getattr_var cls p ''dimensions'' \<and> vdata d = a"
proof -
  from wf_var_ncattrs[OF assms(1)]
  obtain ns where ns: "map_of (vdict p) ''_ncattrs'' = Some (PTuple ns)" by blast
  let ?l = "(''_ncattrs'', PTuple ns) # map (entry p) (view_names ns)"
  from new_view_of_var[OF assms(1) ns, of a] assms(2)
  have d: "d = \<lparr>vdata = a, vdict = ?l\<rparr>" by simp
  have lk: "\<And>k. k \<in> set ns \<or> k = ''dimensions'' \<Longrightarrow> map_of ?l k = map_of (vdict p) k"
    using view_meta_lookup[OF assms(1) ns] by blast
  have cls: "''_ncattrs'' \<notin> set cls" "''dimensions'' \<notin> set cls"
    and all: "list_all (\<lambda>k. user_name cls k \<and> map_of (vdict p) k \<noteq> None) ns"
    and dist: "distinct ns"
    using assms(1) ns by (auto simp: wf_var_def)
  have hd: "map_of ?l ''_ncattrs'' = Some (PTuple ns)" by simp
  have wf: "wf_var cls d"
    using cls all dist lk hd assms(1) unfolding d wf_var_def list_all_iff
    by (auto simp del: map_of.simps(2) simp: ns)
  have ua: "user_attrs cls d = user_attrs cls p"
    using cls lk ns hd unfolding d user_attrs_def ncattrs_var_def getattr_var_def
    by (auto simp del: map_of.simps(2))
  have dm: "getattr_var cls d ''dimensions'' = getattr_var cls p ''dimensions''"
    using cls lk unfolding d getattr_var_def by (auto simp del: map_of.simps(2))
  show ?thesis using wf ua dm d by simp
qed

lemma new_view_total:
  assumes "wf_var cls p"
  shows "\<exists>d. new_view cls a (ObjVar p) = Inr d"
  using new_view_of_var[OF assms] wf_var_ncattrs[OF assms] by blast

text \<open>
  Claim C1, as the code has it. Whatever the data of the derived array, of the parent's rank
  or of a smaller one, a view derived from a well-formed attributed array is made without
  error and carries the parent's user attributes (the names of \<^verbatim>\<open>ncattrs()\<close>, in order,
  with their values) and the parent's whole tuple of dimension names; and so does the last
  array of any chain of views, each derived from the one before.
\<close>

theorem derived_views_carry_attributes_and_dimensions:
  "wf_var cls p \<Longrightarrow>
     \<exists>d. foldM (\<lambda>v a. new_view cls a (ObjVar v)) p as = Inr d
        \<and> user_attrs cls d = user_attrs cls p
        \<and> getattr_var cls d ''dimensions'' = getattr_var cls p ''dimensions''
        \<and> vdata d = last (vdata p # as)"
proof (induction as arbitrary: p)
  case Nil
  then show ?case by simp
next
  case (Cons a as)
  from new_view_total[OF Cons.prems, of a] obtain d where d: "new_view cls a (ObjVar p) = Inr d"
    by blast
  from new_view_wf[OF Cons.prems d] Cons.IH[of d] d show ?case by auto
qed

theorem derived_views_carry_attributes_and_dimensions_witness:
  "wf_var ex_cls ex_parent \<and>
   foldM (\<lambda>v a. new_view ex_cls a (ObjVar v)) ex_parent [vdata ex_parent, vdata ex_row] = Inr ex_row \<and>
   user_attrs ex_cls ex_row = user_attrs ex_cls ex_parent \<and>
   getattr_var ex_cls ex_row ''dimensions'' = Inr (PTuple [''TIME'', ''LAY''])"
  using derived_views_carry_attributes_and_dimensions
          [of ex_cls ex_parent "[vdata ex_parent, vdata ex_row]"]
  by (simp add: wf_var_def user_name_def ex_cls_def ex_parent_def ex_row_def user_attrs_def
      ncattrs_var_def getattr_var_def new_view_def array_finalize_def finalize_dimensions_def
      copy_ncattrs_def hasattr_var_def hasattr_obj_def getattr_obj_def setattr_var_def
      ndarray_setattr_def)

text \<open>
  Claim C1 as stated fails where the rank drops: \<^verbatim>\<open>var[0]\<close> on the 2 by 3 array with
  dimensions \<^verbatim>\<open>('TIME', 'LAY')\<close> is an array of rank 1 that still has both names.
\<close>

theorem rank_reducing_view_keeps_all_dimension_names:
  "var_getitem_int ex_cls ex_parent 0 = Inr ex_row \<and>
   shape (vdata ex_row) = [3] \<and>
   getattr_var ex_cls ex_parent ''dimensions'' = Inr (PTuple [''TIME'', ''LAY'']) \<and>
   getattr_var ex_cls ex_row ''dimensions'' = Inr (PTuple [''TIME'', ''LAY'']) \<and>
   getattr_var ex_cls ex_row ''dimensions'' \<noteq> Inr (PTuple (butlast [''TIME'', ''LAY'']))"
  by (simp add: var_getitem_int_def getitem_int_def ex_cls_def ex_parent_def ex_row_def
      getattr_var_def new_view_def array_finalize_def finalize_dimensions_def
      copy_ncattrs_def hasattr_var_def hasattr_obj_def getattr_obj_def setattr_var_def
      ndarray_setattr_def)

subsection \<open>File attributes\<close>

text \<open>
  Claim C2 at the assignments \<^verbatim>\<open>f.fish = 1; f.fish = 2\<close> on a new file: the name is
  recorded at each assignment, so \<^verbatim>\<open>ncattrs()\<close> holds it twice.
\<close>

theorem file_setattr_records_name_twice:
  "map_sum id ncattrs
     (bind_res (setattr_file PseudoNetCDFFile_new ''fish'' (FVal (PInt 1)))
        (\<lambda>f. setattr_file f ''fish'' (FVal (PInt 2))))
   = Inr [''fish'', ''fish'']"
  by (simp add: setattr_file_def object_setattr_def PseudoNetCDFFile_new_def ncattrs_def)

subsection \<open>The lazy registry\<close>

lemma registry_keys_iff:
  "map_of (stored r) k = None \<Longrightarrow> k \<in> set (registry_keys r) \<longleftrightarrow> k \<in> set (r_keys r)"
  by (auto simp: registry_keys_def map_of_eq_None_iff)

text \<open>
  Claim C7. For a key that the dictionary does not store: if it is not declared the lookup
  raises \<^verbatim>\<open>KeyError\<close> and the factory is not called (the world is as before); if it is
  declared the lookup is the factory's result, the registry is as before, and a second
  lookup calls the factory again, on the world the first call left.
\<close>

theorem registry_lookup_calls_factory_every_time:
  "map_of (stored r) k = None \<Longrightarrow>
     (k \<notin> set (r_keys r) \<longrightarrow> registry_getitem r k w = (Inl KeyError, r, w)) \<and>
     (k \<in> set (r_keys r) \<longrightarrow>
        registry_getitem r k w = (fst (r_func r k w), r, snd (r_func r k w)) \<and>
        registry_getitem r k (snd (r_func r k w))
          = (fst (r_func r k (snd (r_func r k w))), r, snd (r_func r k (snd (r_func r k w)))))"
  by (simp add: registry_getitem_def registry_missing_def registry_keys_iff split: prod.splits)

theorem registry_lookup_calls_factory_every_time_witness:
  "map_of (stored ex_registry) ''O3'' = None \<and> ''O3'' \<in> set (r_keys ex_registry) \<and>
   registry_getitem ex_registry ''O3'' 0 = (Inr 2, ex_registry, 1) \<and>
   registry_getitem ex_registry ''O3'' 1 = (Inr 2, ex_registry, 2) \<and>
   map_of (stored ex_registry) ''CO'' = None \<and> ''CO'' \<notin> set (r_keys ex_registry) \<and>
   registry_getitem ex_registry ''CO'' 0 = (Inl KeyError, ex_registry, 0)"
  using registry_lookup_calls_factory_every_time [of ex_registry "''O3''" 0]
    registry_lookup_calls_factory_every_time [of ex_registry "''CO''" 0]
  by (simp add: ex_registry_def registry_init_def)

subsection \<open>\<^verbatim>\<open>get_dimension_length\<close>\<close>

text \<open>
  Claim C10. On a file object without an attribute \<^verbatim>\<open>dimsensions\<close> the function raises
  \<^verbatim>\<open>AttributeError\<close>, whatever the key, the dimensions and the variables.
\<close>

theorem get_dimension_length_raises:
  "\<not> hasattr_file pfile ''dimsensions'' \<Longrightarrow>
     get_dimension_length cls pfile key = Inl AttributeError"
  by (simp add: hasattr_file_def get_dimension_length_def getattr_file_def file_cls_def)

theorem get_dimension_length_raises_witness:
  "\<not> hasattr_file (createDimension (PseudoNetCDFFile_new :: int pfile) ''TIME'' 24) ''dimsensions''
   \<and> get_dimension_length ex_cls (createDimension (PseudoNetCDFFile_new :: int pfile) ''TIME'' 24)
        ''TIME'' = Inl AttributeError"
  using get_dimension_length_raises
          [of "createDimension (PseudoNetCDFFile_new :: int pfile) ''TIME'' 24" ex_cls "''TIME''"]
  by (simp add: hasattr_file_def createDimension_def PseudoNetCDFFile_new_def file_cls_def)

subsection \<open>Splitting and evaluating the definitions\<close>

lemma split_comma_nonempty: "split_comma s \<noteq> []"
  by (induction s) (auto split: list.splits)

lemma split_comma_no_comma: "CHR '','' \<notin> set a \<Longrightarrow> split_comma a = [a]"
  by (induction a) auto

lemma split_comma_append:
  "CHR '','' \<notin> set a \<Longrightarrow> split_comma (a @ CHR '','' # rest) = a # split_comma rest"
  by (induction a) auto

lemma split_comma_parts: "w \<in> set (split_comma s) \<Longrightarrow> CHR '','' \<notin> set w"
proof (induction s arbitrary: w)
  case Nil
  then show ?case by simp
next
  case (Cons c cs)
  then show ?case
    using split_comma_nonempty[of cs]
    by (cases "split_comma cs") (auto split: if_splits)
qed

lemma lt10: "d < 10 \<Longrightarrow> d = 0 \<or> d = 1 \<or> d = 2 \<or> d = 3 \<or> d = 4 \<or> d = 5 \<or> d = 6 \<or> d = 7 \<or> d = 8 \<or> d = (9::nat)"
  by arith

lemma digit_index: "d < 10 \<Longrightarrow> index_of (digit_chars ! d) digit_chars = d"
  by (drule lt10) (elim disjE; simp add: digit_chars_def)

lemma digit_in: "d < 10 \<Longrightarrow> digit_chars ! d \<in> set digit_chars"
  by (rule nth_mem) (simp add: digit_chars_def)

lemma digit_zero: "d < 10 \<Longrightarrow> digit_chars ! d = CHR ''0'' \<longleftrightarrow> d = 0"
  by (drule lt10) (elim disjE; simp add: digit_chars_def)

declare str_nat.simps [simp del]

lemma str_nat_digits: "list_all (\<lambda>c. c \<in> set digit_chars) (str_nat n)"
proof (induction n rule: str_nat.induct)
  case (1 n)
  show ?case
  proof (cases "n < 10")
    case True
    then show ?thesis using digit_in[of n] by (subst str_nat.simps) simp
  next
    case False
    then show ?thesis using 1 digit_in[of "n mod 10"] by (subst str_nat.simps) simp
  qed
qed

lemma str_nat_nonempty: "str_nat n \<noteq> []"
  by (subst str_nat.simps) simp

lemma str_nat_hd: "0 < n \<Longrightarrow> hd (str_nat n) \<noteq> CHR ''0''"
proof (induction n rule: str_nat.induct)
  case (1 n)
  show ?case
  proof (cases "n < 10")
    case True
    then show ?thesis using 1(2) digit_zero[of n] by (subst str_nat.simps) simp
  next
    case False
    then have "0 < n div 10" by simp
    with 1 False show ?thesis
      using str_nat_nonempty[of "n div 10"] by (subst str_nat.simps) simp
  qed
qed

lemma str_nat_length1: "n < 10 \<Longrightarrow> length (str_nat n) = 1"
  by (subst str_nat.simps) simp

lemma str_nat_value: "foldl (\<lambda>acc c. acc * 10 + index_of c digit_chars) 0 (str_nat n) = n"
proof (induction n rule: str_nat.induct)
  case (1 n)
  show ?case
  proof (cases "n < 10")
    case True
    then show ?thesis using digit_index[of n] by (subst str_nat.simps) simp
  next
    case False
    then show ?thesis using 1 digit_index[of "n mod 10"] by (subst str_nat.simps) simp
  qed
qed

lemma eval_nat_str_nat: "eval_nat (str_nat n) = Inr n"
proof -
  have "length (str_nat n) = 1 \<or> hd (str_nat n) \<noteq> CHR ''0''"
    using str_nat_length1[of n] str_nat_hd[of n] digit_zero[of n] by (cases "n = 0") auto
  then show ?thesis
    using str_nat_digits[of n] str_nat_nonempty[of n] str_nat_value[of n]
    by (simp add: eval_nat_def isdigit_def)
qed

lemma digits_not_None: "list_all (\<lambda>c. c \<in> set digit_chars) s \<Longrightarrow> s \<noteq> ''None''"
  by (auto simp: digit_chars_def)

lemma digits_hd_not_minus: "list_all (\<lambda>c. c \<in> set digit_chars) s \<Longrightarrow> s \<noteq> [] \<Longrightarrow> hd s \<noteq> CHR ''-''"
  by (cases s) (auto simp: digit_chars_def)

lemma py_eval_str_opt: "py_eval (str_opt v) = Inr v"
proof (cases v)
  case None
  then show ?thesis by (simp add: py_eval_def str_opt_def)
next
  case (Some i)
  show ?thesis
  proof (cases "i < 0")
    case True
    then show ?thesis using Some eval_nat_str_nat[of "nat (- i)"]
      by (simp add: py_eval_def str_opt_def str_int_def)
  next
    case False
    obtain c cs where cs: "str_nat (nat i) = c # cs"
      using str_nat_nonempty[of "nat i"] by (cases "str_nat (nat i)") auto
    have "c \<noteq> CHR ''-''" using digits_hd_not_minus[OF str_nat_digits str_nat_nonempty, of "nat i"] cs by simp
    moreover have "c # cs \<noteq> ''None''" using digits_not_None[OF str_nat_digits, of "nat i"] cs by simp
    ultimately show ?thesis using Some False eval_nat_str_nat[of "nat i"] cs
      by (simp add: py_eval_def str_opt_def str_int_def)
  qed
qed

lemma str_nat_no_comma: "CHR '','' \<notin> set (str_nat n)"
proof
  assume "CHR '','' \<in> set (str_nat n)"
  with str_nat_digits[of n] have "CHR '','' \<in> set digit_chars"
    unfolding list_all_iff by blast
  then show False by (simp add: digit_chars_def)
qed

lemma str_opt_no_comma: "CHR '','' \<notin> set (str_opt v)"
proof (cases v)
  case None
  then show ?thesis by (simp add: str_opt_def)
next
  case (Some i)
  then show ?thesis using str_nat_no_comma by (simp add: str_opt_def str_int_def)
qed

lemma parse_slicedef_four:
  assumes "CHR '','' \<notin> set dimkey"
  shows "parse_slicedef (dimkey @ '','' @ str_opt a @ '','' @ str_opt b @ '','' @ str_opt c)
         = Inr (dimkey, a, b, c)"
  using assms
  by (simp add: parse_slicedef_def split_comma_append split_comma_no_comma str_opt_no_comma
      py_eval_str_opt bind_res_def)

lemma parse_slicedef_start_only:
  assumes "CHR '','' \<notin> set dimkey"
  shows "parse_slicedef (dimkey @ '','' @ str_int s) = Inr (dimkey, Some s, Some (s + 1), None)"
  using assms py_eval_str_opt[of "Some s"] str_opt_no_comma[of "Some s"]
  by (simp add: parse_slicedef_def split_comma_append split_comma_no_comma
      bind_res_def str_opt_def)

subsection \<open>Arrays: reading, building, swapping axes and slicing\<close>

lemma valid_index_length: "valid_index sh idx \<Longrightarrow> length idx = length sh"
  by (induction sh idx rule: valid_index.induct) auto

lemma valid_index_iff:
  "valid_index sh idx \<longleftrightarrow> length idx = length sh \<and> (\<forall>k<length sh. idx ! k < sh ! k)"
proof (induction sh idx rule: valid_index.induct)
  case (2 n ns i idx)
  then show ?case by (auto simp: nth_Cons split: nat.splits)
qed auto

lemma get_tabulate: "valid_index sh idx \<Longrightarrow> get (tabulate sh g) idx = g idx"
  by (induction sh idx arbitrary: g rule: valid_index.induct) auto

lemma tabulate_cong:
  "(\<And>idx. valid_index sh idx \<Longrightarrow> g idx = h idx) \<Longrightarrow> tabulate sh g = tabulate sh h"
proof (induction sh arbitrary: g h)
  case Nil
  then show ?case by simp
next
  case (Cons n ns)
  have "\<And>i. i < n \<Longrightarrow> tabulate ns (\<lambda>idx. g (i # idx)) = tabulate ns (\<lambda>idx. h (i # idx))"
    by (rule Cons.IH) (simp add: Cons.prems)
  then show ?case by simp
qed

lemma tabulate_get: "has_shape sh b \<Longrightarrow> tabulate sh (get b) = b"
proof (induction sh arbitrary: b)
  case Nil
  then show ?case by (cases b) auto
next
  case (Cons n ns)
  then obtain xs where b: "b = Node xs" by (cases b) auto
  with Cons.prems have len: "length xs = n" and all: "list_all (has_shape ns) xs" by auto
  have "\<And>i. i < n \<Longrightarrow> tabulate ns (\<lambda>idx. get (Node xs) (i # idx)) = xs ! i"
    using Cons.IH all len by (simp add: list_all_length)
  then have "map (\<lambda>i. tabulate ns (\<lambda>idx. get (Node xs) (i # idx))) [0..<n] = map (\<lambda>i. xs ! i) [0..<n]"
    by simp
  also have "\<dots> = xs" using len map_nth[of xs] by simp
  finally show ?case using b by simp
qed

lemma has_shape_tabulate: "has_shape sh (tabulate sh g)"
  by (induction sh arbitrary: g) (auto simp: list_all_iff)

lemma length_swap_idx [simp]: "length (swap_idx i j xs) = length xs"
  by (simp add: swap_idx_def)

lemma swap_idx_nth:
  "i < length xs \<Longrightarrow> j < length xs \<Longrightarrow> k < length xs \<Longrightarrow>
   swap_idx i j xs ! k = (if k = j then xs ! i else if k = i then xs ! j else xs ! k)"
  by (auto simp: swap_idx_def nth_list_update)

lemma swap_idx_involution:
  "i < length xs \<Longrightarrow> j < length xs \<Longrightarrow> swap_idx i j (swap_idx i j xs) = xs"
  by (rule nth_equalityI) (auto simp: swap_idx_nth)

lemma valid_index_swap:
  "valid_index sh idx \<Longrightarrow> i < length sh \<Longrightarrow> j < length sh \<Longrightarrow>
   valid_index (swap_idx i j sh) (swap_idx i j idx)"
  by (auto simp: valid_index_iff swap_idx_nth)

lemma swapaxes_involution:
  assumes "wf_ndarray a" "i < length (shape a)" "j < length (shape a)"
  shows "bind_res (swapaxes a i j) (\<lambda>b. swapaxes b i j) = Inr a"
proof -
  let ?sh = "swap_idx i j (shape a)"
  let ?b = "tabulate ?sh (\<lambda>idx. get (body a) (swap_idx i j idx))"
  have sh: "swap_idx i j ?sh = shape a" using assms by (simp add: swap_idx_involution)
  have "tabulate (shape a) (\<lambda>idx. get ?b (swap_idx i j idx)) = tabulate (shape a) (get (body a))"
  proof (rule tabulate_cong)
    fix idx assume v: "valid_index (shape a) idx"
    then have l: "length idx = length (shape a)" by (rule valid_index_length)
    have "get ?b (swap_idx i j idx) = get (body a) (swap_idx i j (swap_idx i j idx))"
      using valid_index_swap[OF v assms(2,3)] by (simp add: get_tabulate)
    then show "get ?b (swap_idx i j idx) = get (body a) idx"
      using l assms by (simp add: swap_idx_involution)
  qed
  also have "\<dots> = body a" using assms(1) by (simp add: wf_ndarray_def tabulate_get)
  finally show ?thesis using assms sh by (simp add: swapaxes_def Let_def)
qed

lemma slice_indices_full: "slice_indices (Some 0) (Some (int n)) (Some 1) n = Inr [0..<n]"
proof -
  have "map (\<lambda>k. nat (int k)) [0..<n] = [0..<n]" by (simp add: map_idI)
  then show ?thesis by (cases "n = 0") (simp_all add: slice_indices_def Let_def)
qed

lemma getitem_slice_full:
  assumes "wf_ndarray a" "shape a = n # ns"
  shows "getitem_slice a (Some 0) (Some (int n)) (Some 1) = Inr a"
proof -
  from assms obtain xs where b: "body a = Node xs" and len: "length xs = n"
    by (cases "body a") (auto simp: wf_ndarray_def)
  have "map (\<lambda>i. xs ! i) [0..<n] = xs" using len map_nth[of xs] by simp
  then show ?thesis using assms b len
    by (simp add: getitem_slice_def slice_indices_full)
qed

lemma swapaxes_wf:
  "swapaxes a i j = Inr b \<Longrightarrow> wf_ndarray b \<and> shape b = swap_idx i j (shape a) \<and> dtype_char b = dtype_char a"
  by (auto simp: swapaxes_def Let_def wf_ndarray_def has_shape_tabulate split: if_splits)

lemma slice_axis_full:
  assumes "wf_ndarray a" "axis < length (shape a)" "shape a ! axis = n"
  shows "slice_axis a axis (Some 0) (Some (int n)) (Some 1) = Inr a"
proof -
  have z: "0 < length (shape a)" using assms(2) by (cases "shape a") auto
  obtain b where b: "swapaxes a 0 axis = Inr b"
    using assms z by (auto simp: swapaxes_def Let_def)
  from swapaxes_wf[OF b] have wb: "wf_ndarray b" and sb: "shape b = swap_idx 0 axis (shape a)" by auto
  have "length (shape b) = length (shape a)" using sb by simp
  then have "shape b \<noteq> []" using z by (cases "shape b") auto
  then obtain m ms where ms: "shape b = m # ms" by (cases "shape b") auto
  have "m = shape b ! 0" using ms by simp
  also have "\<dots> = n" using sb assms z by (auto simp: swap_idx_nth)
  finally have m: "m = n" .
  have "getitem_slice b (Some 0) (Some (int n)) (Some 1) = Inr b"
    using getitem_slice_full[OF wb] ms m by simp
  moreover have "swapaxes b 0 axis = Inr a"
    using swapaxes_involution[OF assms(1) z assms(2)] b by simp
  ultimately show ?thesis using b by (simp add: slice_axis_def)
qed

lemma swap_slice_shape:
  "axis < length sh \<Longrightarrow> swap_idx 0 axis (L # tl (swap_idx 0 axis sh)) = sh[axis := L]"
  by (cases sh; cases axis) (auto simp: swap_idx_def)

lemma slice_axis_shape:
  assumes "axis < length (shape a)" "slice_indices dmin dmax dstride (shape a ! axis) = Inr idxs"
  shows "\<exists>a'. slice_axis a axis dmin dmax dstride = Inr a' \<and> shape a' = (shape a)[axis := length idxs]
          \<and> dtype_char a' = dtype_char a"
proof -
  have z: "0 < length (shape a)" using assms(1) by (cases "shape a") auto
  obtain b where b: "swapaxes a 0 axis = Inr b"
    using assms z by (auto simp: swapaxes_def Let_def)
  from swapaxes_wf[OF b] have wb: "wf_ndarray b" and sb: "shape b = swap_idx 0 axis (shape a)"
    and db: "dtype_char b = dtype_char a" by auto
  have "length (shape b) = length (shape a)" using sb by simp
  then have "shape b \<noteq> []" using z by (cases "shape b") auto
  then obtain m ms where ms: "shape b = m # ms" by (cases "shape b") auto
  have "m = shape b ! 0" using ms by simp
  also have "\<dots> = shape a ! axis" using sb assms z by (auto simp: swap_idx_nth)
  finally have m: "m = shape a ! axis" .
  from wb ms obtain xs where xs: "body b = Node xs" by (cases "body b") (auto simp: wf_ndarray_def)
  let ?c = "\<lparr>shape = length idxs # ms, body = Node (map (\<lambda>i. xs ! i) idxs), dtype_char = dtype_char b\<rparr>"
  have c: "getitem_slice b dmin dmax dstride = Inr ?c"
    using ms m assms(2) xs by (simp add: getitem_slice_def)
  have "tl (shape b) = ms" using ms by simp
  then have msd: "ms = tl (swap_idx 0 axis (shape a))" using sb by simp
  have "length (shape b) = Suc (length ms)" using ms by simp
  then have lms: "Suc (length ms) = length (shape a)" using sb by simp
  have lc: "length (shape ?c) = length (shape a)" using lms by simp
  obtain a' where a': "swapaxes ?c 0 axis = Inr a'"
    using lc assms z by (auto simp: swapaxes_def Let_def)
  have "shape a' = swap_idx 0 axis (length idxs # ms)" using swapaxes_wf[OF a'] by simp
  also have "\<dots> = (shape a)[axis := length idxs]"
    unfolding msd using assms(1) by (rule swap_slice_shape)
  finally have "shape a' = (shape a)[axis := length idxs]" .
  moreover have "dtype_char a' = dtype_char a" using swapaxes_wf[OF a'] db by simp
  ultimately show ?thesis using b c a' by (simp add: slice_axis_def)
qed

subsection \<open>\<^verbatim>\<open>slice_dim\<close>\<close>

lemma new_view_view_dict:
  "wf_var cls p \<Longrightarrow> new_view cls a (ObjVar p) = Inr (as_view p a)"
  using new_view_of_var[of cls p] wf_var_ncattrs[of cls p]
  by (auto simp: view_dict_def as_view_def)

lemma as_view_facts:
  assumes "wf_var cls p"
  shows "wf_var cls (as_view p a)" "user_attrs cls (as_view p a) = user_attrs cls p"
    "getattr_var cls (as_view p a) ''dimensions'' = getattr_var cls p ''dimensions''"
    "vdata (as_view p a) = a"
  using new_view_wf[OF assms, of a "as_view p a"] new_view_view_dict[OF assms, of a] by auto

lemma as_view_dims_lookup:
  assumes "wf_var cls p"
  shows "map_of (vdict (as_view p a)) ''dimensions'' = map_of (vdict p) ''dimensions''"
proof -
  from wf_var_ncattrs[OF assms] obtain ns where ns: "map_of (vdict p) ''_ncattrs'' = Some (PTuple ns)" by blast
  show ?thesis using view_meta_lookup[OF assms ns, of "''dimensions''"] ns
    by (simp add: as_view_def view_dict_def del: map_of.simps(2))
qed

lemma view_dict_as_view:
  assumes "wf_var cls p"
  shows "view_dict (as_view p a) = view_dict p"
proof -
  from wf_var_ncattrs[OF assms] obtain ns where ns: "map_of (vdict p) ''_ncattrs'' = Some (PTuple ns)" by blast
  let ?l = "(''_ncattrs'', PTuple ns) # map (entry p) (view_names ns)"
  have vd: "view_dict p = ?l" using ns by (simp add: view_dict_def)
  have av: "vdict (as_view p a) = ?l" using vd by (simp add: as_view_def)
  have hd: "map_of ?l ''_ncattrs'' = Some (PTuple ns)" by simp
  have "\<And>k. k \<in> set (view_names ns) \<Longrightarrow> entry (as_view p a) k = entry p k"
  proof -
    fix k assume "k \<in> set (view_names ns)"
    then have "k \<in> set ns \<or> k = ''dimensions''" by (auto simp: view_names_def split: if_splits)
    from view_meta_lookup[OF assms ns this] show "entry (as_view p a) k = entry p k"
      unfolding entry_def av by simp
  qed
  then have m: "map (entry (as_view p a)) (view_names ns) = map (entry p) (view_names ns)" by simp
  have "view_dict (as_view p a) = (''_ncattrs'', PTuple ns) # map (entry (as_view p a)) (view_names ns)"
    unfolding view_dict_def av hd by simp
  then show ?thesis unfolding m vd .
qed

lemma new_view_as_view:
  assumes "wf_var cls p"
  shows "new_view cls a' (ObjVar (as_view p a)) = Inr (as_view p a')"
proof -
  have w: "wf_var cls (as_view p a)" using as_view_facts(1)[OF assms] .
  have "new_view cls a' (ObjVar (as_view p a)) = Inr (as_view (as_view p a) a')"
    using new_view_view_dict[OF w] .
  moreover have "as_view (as_view p a) a' = as_view p a'"
    using view_dict_as_view[OF assms, of a] by (simp add: as_view_def)
  ultimately show ?thesis by simp
qed

lemma index_of_less: "k \<in> set xs \<Longrightarrow> index_of k xs < length xs \<and> xs ! index_of k xs = k"
  by (induction xs) auto

lemma var_dims_getattr:
  "wf_var cls v \<Longrightarrow> map_of (vdict v) ''dimensions'' = Some (PTuple ds) \<Longrightarrow>
   getattr_var cls v ''dimensions'' = Inr (PTuple ds) \<and> var_dims v = ds"
  by (auto simp: wf_var_def getattr_var_def var_dims_def)

lemma slice_var_skip:
  assumes "map_of (variables f) varkey = Some var" "wf_var cls var"
    "map_of (vdict var) ''dimensions'' = Some (PTuple ds)" "dimkey \<notin> set (var_dims var)"
  shows "slice_var cls dimkey dmin dmax dstride u f varkey = Inr f"
  using assms var_dims_getattr[OF assms(2,3)] by (simp add: slice_var_def)

lemma slice_var_hit:
  assumes "map_of (variables f) varkey = Some var" "wf_var cls var"
    "map_of (vdict var) ''dimensions'' = Some (PTuple ds)" "dimkey \<in> set (var_dims var)"
    "slice_axis (vdata var) (index_of dimkey (var_dims var)) dmin dmax dstride = Inr a'"
    "index_of dimkey (var_dims var) < length (shape a')"
  shows "slice_var cls dimkey dmin dmax dstride u f varkey =
     Inr (f\<lparr>dimensions := AList.update dimkey
                (setunlimited (PseudoNetCDFDimension (shape a' ! index_of dimkey (var_dims var))) u)
                (dimensions f),
            variables := AList.update varkey (as_view var a') (variables f)\<rparr>)"
proof -
  note vd = var_dims_getattr[OF assms(2,3)]
  let ?ax = "index_of dimkey ds"
  from assms(5) vd obtain b c where b: "swapaxes (vdata var) 0 ?ax = Inr b"
    and c: "getitem_slice b dmin dmax dstride = Inr c" and a': "swapaxes c 0 ?ax = Inr a'"
    by (auto simp: slice_axis_def bind_res_def split: sum.splits)
  have e: "ellipsis_var cls var = Inr (as_view var (vdata var))"
    using assms(2) by (simp add: ellipsis_var_def new_view_view_dict)
  have s1: "var_swapaxes cls (as_view var (vdata var)) 0 ?ax = Inr (as_view var b)"
    using b assms(2) by (simp add: var_swapaxes_def as_view_facts new_view_as_view)
  have s2: "var_getitem_slice cls (as_view var b) dmin dmax dstride = Inr (as_view var c)"
    using c assms(2) by (simp add: var_getitem_slice_def as_view_facts new_view_as_view)
  have s3: "var_swapaxes cls (as_view var c) 0 ?ax = Inr (as_view var a')"
    using a' assms(2) by (simp add: var_swapaxes_def as_view_facts new_view_as_view)
  show ?thesis
    using assms(1,4,6) vd e s1 s2 s3 assms(2)
    by (simp add: slice_var_def Let_def as_view_facts)
qed

lemma update_middle:
  "k \<notin> fst ` set ps \<Longrightarrow> AList.update k x (ps @ (k, v) # ss) = ps @ (k, x) # ss"
  by (induction ps) auto

lemma map_of_middle:
  "k \<notin> fst ` set ps \<Longrightarrow> map_of (ps @ (k, v) # ss) k = Some v"
  by (induction ps) auto

lemma foldM_vars_gen:
  fixes step :: "'a pfile \<Rightarrow> string \<Rightarrow> error + 'a pfile"
  assumes step: "\<And>f k v. (k, v) \<in> set vs \<Longrightarrow> map_of (variables f) k = Some v \<Longrightarrow>
       step f k = Inr (f\<lparr>dimensions := D v (dimensions f),
                         variables := AList.update k (G v) (variables f)\<rparr>)"
  shows "distinct (map fst (ps @ ss)) \<Longrightarrow> set ss \<subseteq> set vs \<Longrightarrow>
     variables f = map (\<lambda>kv. (fst kv, G (snd kv))) ps @ ss \<Longrightarrow>
     foldM step f (map fst ss)
       = Inr (f\<lparr>dimensions := fold D (map snd ss) (dimensions f),
               variables := map (\<lambda>kv. (fst kv, G (snd kv))) (ps @ ss)\<rparr>)"
proof (induction ss arbitrary: ps f)
  case Nil
  then show ?case by simp
next
  case (Cons kv ss)
  obtain k v where kv: "kv = (k, v)" by (cases kv)
  have nk: "k \<notin> fst ` set (map (\<lambda>kv. (fst kv, G (snd kv))) ps)"
    using Cons.prems(1) kv by (auto simp: image_iff)
  have lk: "map_of (variables f) k = Some v"
    using Cons.prems(3) kv map_of_middle[OF nk] by simp
  have inv: "(k, v) \<in> set vs" using Cons.prems(2) kv by auto
  let ?f' = "f\<lparr>dimensions := D v (dimensions f), variables := AList.update k (G v) (variables f)\<rparr>"
  have st: "step f k = Inr ?f'" using step[OF inv lk] .
  have v': "variables ?f' = map (\<lambda>kv. (fst kv, G (snd kv))) (ps @ [(k, v)]) @ ss"
    using Cons.prems(3) kv update_middle[OF nk] by simp
  have d': "distinct (map fst ((ps @ [(k, v)]) @ ss))" using Cons.prems(1) kv by simp
  have s': "set ss \<subseteq> set vs" using Cons.prems(2) by auto
  from Cons.IH[OF d' s' v'] st kv show ?case by simp
qed

lemma foldM_vars:
  fixes step :: "'a pfile \<Rightarrow> string \<Rightarrow> error + 'a pfile"
  assumes "distinct (map fst (variables f))"
    and "\<And>f' k v. (k, v) \<in> set (variables f) \<Longrightarrow> map_of (variables f') k = Some v \<Longrightarrow>
       step f' k = Inr (f'\<lparr>dimensions := D v (dimensions f'),
                         variables := AList.update k (G v) (variables f')\<rparr>)"
  shows "foldM step f (map fst (variables f))
       = Inr (f\<lparr>dimensions := fold D (map snd (variables f)) (dimensions f),
               variables := map (\<lambda>kv. (fst kv, G (snd kv))) (variables f)\<rparr>)"
  using foldM_vars_gen[where vs = "variables f" and ps = "[]" and ss = "variables f" and f = f
      and step = step and D = D and G = G] assms by simp

lemma shape_matches_axis:
  assumes "shape_matches f v" "dimkey \<in> set (var_dims v)" "map_of (dimensions f) dimkey = Some dm"
  shows "index_of dimkey (var_dims v) < length (shape (vdata v))"
    and "shape (vdata v) ! index_of dimkey (var_dims v) = d_len dm"
proof -
  let ?ax = "index_of dimkey (var_dims v)"
  let ?l = "map (\<lambda>d. map_option d_len (map_of (dimensions f) d)) (var_dims v)"
  have eq: "?l = map Some (shape (vdata v))" using assms(1) by (simp add: shape_matches_def)
  then have "length ?l = length (map Some (shape (vdata v)))" by simp
  then have len: "length (var_dims v) = length (shape (vdata v))" by simp
  have ax: "?ax < length (var_dims v)" "var_dims v ! ?ax = dimkey"
    using index_of_less[OF assms(2)] by auto
  show "?ax < length (shape (vdata v))" using ax len by simp
  have "?l ! ?ax = map Some (shape (vdata v)) ! ?ax" using eq by simp
  then show "shape (vdata v) ! ?ax = d_len dm" using ax len assms(3) by simp
qed

lemma update_twice: "AList.update k v (AList.update k v al) = AList.update k v al"
  by (induction al) auto

lemma fold_update_dims:
  "fold (\<lambda>v. if P v then AList.update k nd else id) vs ds
     = (if list_ex P vs then AList.update k nd ds else ds)"
proof (induction vs arbitrary: ds)
  case Nil
  then show ?case by simp
next
  case (Cons v vs)
  then show ?case by (simp add: update_twice)
qed

lemma slice_loop:
  assumes ok: "file_ok cls f" and dm: "map_of (dimensions f) dimkey = Some dm"
    and idxs: "slice_indices dmin dmax dstride (d_len dm) = Inr idxs"
  shows "foldM (slice_var cls dimkey dmin dmax dstride u) f (map fst (variables f))
     = Inr (f\<lparr>dimensions :=
                (if list_ex (\<lambda>v. dimkey \<in> set (var_dims v)) (map snd (variables f))
                 then AList.update dimkey \<lparr>d_len = length idxs, d_unlimited = u\<rparr> (dimensions f)
                 else dimensions f),
              variables := map (\<lambda>kv. (fst kv, sliced dimkey dmin dmax dstride (snd kv)))
                             (variables f)\<rparr>)"
proof -
  let ?D = "\<lambda>v. if dimkey \<in> set (var_dims v)
                 then AList.update dimkey \<lparr>d_len = length idxs, d_unlimited = u\<rparr> else id"
  have step: "\<And>f' k v. (k, v) \<in> set (variables f) \<Longrightarrow> map_of (variables f') k = Some v \<Longrightarrow>
       slice_var cls dimkey dmin dmax dstride u f' k
         = Inr (f'\<lparr>dimensions := ?D v (dimensions f'),
                   variables := AList.update k (sliced dimkey dmin dmax dstride v) (variables f')\<rparr>)"
  proof -
    fix f' :: "'a pfile" and k v
    assume kv: "(k, v) \<in> set (variables f)" and lk: "map_of (variables f') k = Some v"
    from ok kv have vok: "var_ok cls f v" by (auto simp: file_ok_def list_all_iff)
    then have wf: "wf_var cls v" and wa: "wf_ndarray (vdata v)" and sm: "shape_matches f v"
      by (auto simp: var_ok_def)
    from vok obtain ds where ds: "map_of (vdict v) ''dimensions'' = Some (PTuple ds)"
      by (auto simp: var_ok_def split: option.splits pyval.splits)
    show "slice_var cls dimkey dmin dmax dstride u f' k
         = Inr (f'\<lparr>dimensions := ?D v (dimensions f'),
                   variables := AList.update k (sliced dimkey dmin dmax dstride v) (variables f')\<rparr>)"
    proof (cases "dimkey \<in> set (var_dims v)")
      case False
      then show ?thesis
        using slice_var_skip[OF lk wf ds False] lk by (simp add: sliced_def update_triv)
    next
      case True
      let ?ax = "index_of dimkey (var_dims v)"
      note ax = shape_matches_axis[OF sm True dm]
      from slice_axis_shape[OF ax(1), of dmin dmax dstride idxs] idxs ax(2)
      obtain a' where a': "slice_axis (vdata v) ?ax dmin dmax dstride = Inr a'"
        and sh: "shape a' = (shape (vdata v))[?ax := length idxs]" by auto
      have l: "?ax < length (shape a')" using sh ax(1) by simp
      have n: "shape a' ! ?ax = length idxs" using sh ax(1) by simp
      show ?thesis
        using slice_var_hit[OF lk wf ds True a' l, where u = u] True a' n
        by (simp add: sliced_def setunlimited_def PseudoNetCDFDimension_def)
    qed
  qed
  have d: "distinct (map fst (variables f))" using ok by (simp add: file_ok_def)
  show ?thesis
    using foldM_vars[where f = f and step = "slice_var cls dimkey dmin dmax dstride u"
        and D = ?D and G = "sliced dimkey dmin dmax dstride", OF d step]
    by (simp add: fold_update_dims)
qed

lemma append_history_ok:
  assumes "history_ok f"
  shows "append_history f h
     = Inr (f\<lparr>f_ncattrs := f_ncattrs f @ [''history''],
              fdict := AList.update ''history'' (PStr (history_of f @ h)) (fdict f)\<rparr>)"
  using assms
  by (auto simp: append_history_def hasattr_file_def getattr_file_def file_cls_def history_ok_def
      history_of_def setattr_file_def object_setattr_def split: option.splits pyval.splits)

lemma slice_dim_no_siblings:
  assumes ok: "file_ok cls f" and dm: "map_of (dimensions f) dimkey = Some dm"
    and p: "parse_slicedef slicedef = Inr (dimkey, dmin, dmax, dstride)"
    and sib: "fuzzydim \<longrightarrow> partial_check f dimkey = []"
    and idxs: "slice_indices dmin dmax dstride (d_len dm) = Inr idxs"
  shows "slice_dim cls f slicedef fuzzydim
     = Inr (f\<lparr>dimensions :=
                (if list_ex (\<lambda>v. dimkey \<in> set (var_dims v)) (map snd (variables f))
                 then AList.update dimkey \<lparr>d_len = length idxs, d_unlimited = d_unlimited dm\<rparr>
                        (dimensions f)
                 else dimensions f),
              variables := map (\<lambda>kv. (fst kv, sliced dimkey dmin dmax dstride (snd kv)))
                             (variables f),
              f_ncattrs := f_ncattrs f @ [''history''],
              fdict := AList.update ''history''
                 (PStr (history_of f @ ''slice_dim(f, '' @ slicedef @ '', fuzzydim = ''
                          @ str_bool fuzzydim @ ''); '')) (fdict f)\<rparr>)"
proof -
  have h: "\<And>ds vs. history_ok (f\<lparr>dimensions := ds, variables := vs\<rparr>)"
    "\<And>ds vs. history_of (f\<lparr>dimensions := ds, variables := vs\<rparr>) = history_of f"
    using ok by (auto simp: file_ok_def history_ok_def history_of_def)
  have s: "(if fuzzydim then foldM (\<lambda>f' dimk. slice_dim_fuel (length (dimensions f)) cls f'
               (dimk @ '','' @ str_opt dmin @ '','' @ str_opt dmax @ '','' @ str_opt dstride) True)
             f (partial_check f dimkey) else Inr f) = Inr f"
    using sib by auto
  show ?thesis
    unfolding slice_dim_def slice_dim_fuel.simps Let_def p
    using dm slice_loop[OF ok dm idxs, where u = "d_unlimited dm"]
    by (simp add: s isunlimited_def append_history_ok h del: foldM.simps)
qed

lemma str_opt_literals:
  "str_opt (Some 0) = ''0''" "str_opt (Some 1) = ''1''" "str_opt (Some (int n)) = str_nat n"
  by (simp_all add: str_opt_def str_int_def str_nat.simps digit_chars_def)

lemma slice_indices_total:
  "dstride \<noteq> Some 0 \<Longrightarrow> \<exists>idxs. slice_indices dmin dmax dstride n = Inr idxs"
  by (cases dstride) (auto simp: slice_indices_def Let_def)

lemma sliced_full:
  assumes "var_ok cls f v" "map_of (dimensions f) dimkey = Some dm"
  shows "sliced dimkey (Some 0) (Some (int (d_len dm))) (Some 1) v
         = (if dimkey \<in> set (var_dims v) then as_view v (vdata v) else v)"
proof (cases "dimkey \<in> set (var_dims v)")
  case True
  from assms(1) have wa: "wf_ndarray (vdata v)" and sm: "shape_matches f v" by (auto simp: var_ok_def)
  note ax = shape_matches_axis[OF sm True assms(2)]
  show ?thesis using True slice_axis_full[OF wa ax] by (simp add: sliced_def)
qed (simp add: sliced_def)

lemma same_var_sliced_full:
  assumes "var_ok cls f v" "map_of (dimensions f) dimkey = Some dm"
  shows "same_var cls v (sliced dimkey (Some 0) (Some (int (d_len dm))) (Some 1) v)"
proof -
  have wf: "wf_var cls v" using assms(1) by (simp add: var_ok_def)
  show ?thesis unfolding sliced_full[OF assms]
    using as_view_facts[OF wf, of "vdata v"] by (simp add: same_var_def)
qed


text \<open>
  A definition with only a start evaluates to the slice from start to start + 1 with no
  stride. The result of \<^verbatim>\<open>slice_dim\<close> on a well-formed file, for a dimension without fuzzy
  sibling and a stride that is not 0: every variable that has the dimension is sliced along
  that axis, and the Dimension is assigned, with the length of the sliced extent and its
  former unlimited flag, in the turns of the loop for the variables that have the dimension.
\<close>

lemma slice_dim_start_only_no_siblings:
  assumes ok: "file_ok cls f" and dm: "map_of (dimensions f) dimkey = Some dm"
    and nc: "CHR '','' \<notin> set dimkey"
    and sib: "fuzzydim \<longrightarrow> partial_check f dimkey = []"
  shows "parse_slicedef (dimkey @ '','' @ str_int start)
           = Inr (dimkey, Some start, Some (start + 1), None)
       \<and> (parse_slicedef slicedef = Inr (dimkey, dmin, dmax, dstride) \<and> dstride \<noteq> Some 0 \<longrightarrow>
            (\<exists>f'. slice_dim cls f slicedef fuzzydim = Inr f'
               \<and> map snd (variables f') = map (sliced dimkey dmin dmax dstride) (map snd (variables f))
               \<and> map_of (dimensions f') dimkey
                   = Some (if list_ex (\<lambda>v. dimkey \<in> set (var_dims v)) (map snd (variables f))
                           then \<lparr>d_len = slice_length dmin dmax dstride (d_len dm),
                                 d_unlimited = d_unlimited dm\<rparr>
                           else dm)))"
proof (intro conjI impI)
  show "parse_slicedef (dimkey @ '','' @ str_int start) = Inr (dimkey, Some start, Some (start + 1), None)"
    by (rule parse_slicedef_start_only[OF nc])
next
  assume a: "parse_slicedef slicedef = Inr (dimkey, dmin, dmax, dstride) \<and> dstride \<noteq> Some 0"
  then obtain idxs where i: "slice_indices dmin dmax dstride (d_len dm) = Inr idxs"
    using slice_indices_total by blast
  have l: "slice_length dmin dmax dstride (d_len dm) = length idxs"
    using i by (simp add: slice_length_def)
  from a have p: "parse_slicedef slicedef = Inr (dimkey, dmin, dmax, dstride)" by simp
  show "\<exists>f'. slice_dim cls f slicedef fuzzydim = Inr f'
               \<and> map snd (variables f') = map (sliced dimkey dmin dmax dstride) (map snd (variables f))
               \<and> map_of (dimensions f') dimkey
                   = Some (if list_ex (\<lambda>v. dimkey \<in> set (var_dims v)) (map snd (variables f))
                           then \<lparr>d_len = slice_length dmin dmax dstride (d_len dm),
                                 d_unlimited = d_unlimited dm\<rparr>
                           else dm)"
    unfolding slice_dim_no_siblings[OF ok dm p sib i]
    using dm l by (simp add: comp_def update_conv')
qed

lemma ex_file_ok: "file_ok ex_cls ex_file"
  by code_simp


text \<open>
  Claim C5 at a file with the Dimension \<^verbatim>\<open>x\<close> of length 3 and no variable:
  \<^verbatim>\<open>slice_dim(f, 'x,1')\<close> returns with the Dimension \<^verbatim>\<open>x\<close> still of length 3, and the slice
  1:2 of an extent of length 3 has length 1. \<^verbatim>\<open>slice_dim\<close> calls \<^verbatim>\<open>createDimension\<close> inside
  the loop over the variables that have the dimension; \<^verbatim>\<open>reduce_dim\<close> calls it before that
  loop.
\<close>

theorem slice_dim_without_variable_keeps_length: "map_sum id dimensions (slice_dim ex_cls ex_dims_only ''x,1'' True)
      = Inr [(''x'', \<lparr>d_len = 3, d_unlimited = False\<rparr>)]
   \<and> slice_indices (Some 1) (Some 2) None 3 = Inr [1]"
  by code_simp


subsection \<open>\<^verbatim>\<open>reduce_dim\<close>\<close>

lemma valid_index_append:
  "length i1 = length s1 \<Longrightarrow>
   valid_index (s1 @ s2) (i1 @ i2) = (valid_index s1 i1 \<and> valid_index s2 i2)"
proof (induction s1 arbitrary: i1)
  case Nil
  then show ?case by simp
next
  case (Cons n s1)
  then show ?case by (cases i1) auto
qed

lemma valid_index_split:
  assumes "valid_index sh idx" "k < length sh"
  shows "valid_index (take k sh) (take k idx)" "idx ! k < sh ! k"
    "valid_index (drop (Suc k) sh) (drop (Suc k) idx)"
proof -
  have l: "length idx = length sh" using assms(1) by (rule valid_index_length)
  have "valid_index (take k sh @ (sh ! k) # drop (Suc k) sh) (take k idx @ (idx ! k) # drop (Suc k) idx)"
    using assms l by (simp add: id_take_nth_drop[symmetric])
  moreover have "length (take k idx) = length (take k sh)" using l by simp
  ultimately have "valid_index (take k sh) (take k idx)
      \<and> valid_index ((sh ! k) # drop (Suc k) sh) ((idx ! k) # drop (Suc k) idx)"
    using valid_index_append by blast
  then show "valid_index (take k sh) (take k idx)" "idx ! k < sh ! k"
    "valid_index (drop (Suc k) sh) (drop (Suc k) idx)" by auto
qed

lemma reduce_data_ok:
  assumes ax: "axis < length (shape a)"
  shows "\<exists>a2. reduce_data r a axis = Inr a2 \<and> shape a2 = (shape a)[axis := 1]
           \<and> dtype_char a2 = snd r (dtype_char a) \<and> wf_ndarray a2
           \<and> (\<forall>idx. valid_index (shape a2) idx \<longrightarrow>
                 get (body a2) idx
                   = fst r (map (\<lambda>j. get (body a) (idx[axis := j])) [0..<shape a ! axis]))"
proof -
  let ?sh = "shape a"
  let ?sh1 = "take (axis + 1) ?sh @ [1] @ drop (axis + 1) ?sh"
  let ?b1 = "tabulate ?sh1 (\<lambda>idx. get (body a) (take (axis + 1) idx @ drop (Suc (axis + 1)) idx))"
  let ?b = "\<lparr>shape = ?sh1, body = ?b1, dtype_char = dtype_char a\<rparr>"
  have nb: "getitem_newaxis a (axis + 1) = Inr ?b"
    using ax by (simp add: getitem_newaxis_def Let_def)
  have tk: "take (axis + 1) ?sh = take axis ?sh @ [?sh ! axis]"
    using ax by (simp add: take_Suc_conv_app_nth)
  have sh1: "?sh1 = take axis ?sh @ [?sh ! axis] @ [1] @ drop (Suc axis) ?sh"
    using tk by simp
  have l1: "axis < length ?sh1" using ax by simp
  have t1: "take axis ?sh1 = take axis ?sh" using ax by (simp add: sh1)
  have d1: "drop (Suc axis) ?sh1 = 1 # drop (Suc axis) ?sh" using ax by (simp add: sh1)
  have n1: "?sh1 ! axis = ?sh ! axis" using ax by (simp add: sh1 nth_append)
  let ?sh2 = "take axis ?sh1 @ drop (Suc axis) ?sh1"
  have sh2: "?sh2 = ?sh[axis := 1]"
    using ax t1 d1 by (simp add: upd_conv_take_nth_drop)
  let ?g = "\<lambda>idx. fst r (map (\<lambda>j. get ?b1 (take axis idx @ [j] @ drop axis idx)) [0..<?sh1 ! axis])"
  let ?a2 = "\<lparr>shape = ?sh2, body = tabulate ?sh2 ?g, dtype_char = snd r (dtype_char a)\<rparr>"
  have ra: "reduce_axis r ?b axis = Inr ?a2"
    using l1 by (simp add: reduce_axis_def Let_def)
  have val: "\<And>idx. valid_index ?sh2 idx \<Longrightarrow>
      ?g idx = fst r (map (\<lambda>j. get (body a) (idx[axis := j])) [0..<?sh ! axis])"
  proof -
    fix idx assume v: "valid_index ?sh2 idx"
    have v': "valid_index (?sh[axis := 1]) idx" using v sh2 by simp
    have li: "length idx = length ?sh" using valid_index_length[OF v'] by simp
    have axi: "axis < length (?sh[axis := 1])" using ax by simp
    note sp = valid_index_split[OF v' axi]
    have vt: "valid_index (take axis ?sh) (take axis idx)" using sp(1) by simp
    have vd: "valid_index (drop (Suc axis) ?sh) (drop (Suc axis) idx)" using sp(3) by simp
    have i0: "idx ! axis < 1" using sp(2) ax by simp
    have dr: "drop axis idx = (idx ! axis) # drop (Suc axis) idx"
      using li ax by (simp add: Cons_nth_drop_Suc)
    have el: "\<And>j. j < ?sh ! axis \<Longrightarrow>
        get ?b1 (take axis idx @ [j] @ drop axis idx) = get (body a) (idx[axis := j])"
    proof -
      fix j assume j: "j < ?sh ! axis"
      let ?i1 = "take axis idx @ [j] @ drop axis idx"
      have lt: "length (take axis idx) = length (take axis ?sh)" using li by simp
      have "valid_index ([?sh ! axis] @ [1] @ drop (Suc axis) ?sh) ([j] @ drop axis idx)"
        using j i0 vd dr by simp
      then have v1: "valid_index ?sh1 ?i1"
        unfolding sh1 using valid_index_append[OF lt] vt by simp
      have "take (axis + 1) ?i1 @ drop (Suc (axis + 1)) ?i1 = take axis idx @ j # drop (Suc axis) idx"
        using li ax dr by simp
      also have "\<dots> = idx[axis := j]" using li ax by (simp add: upd_conv_take_nth_drop)
      finally have e2: "take (axis + 1) ?i1 @ drop (Suc (axis + 1)) ?i1 = idx[axis := j]" .
      have e1: "get ?b1 ?i1 = get (body a) (take (axis + 1) ?i1 @ drop (Suc (axis + 1)) ?i1)"
        by (rule get_tabulate[OF v1])
      show "get ?b1 ?i1 = get (body a) (idx[axis := j])"
        unfolding e1 e2 ..
    qed
    have m: "map (\<lambda>j. get ?b1 (take axis idx @ [j] @ drop axis idx)) [0..<?sh ! axis]
           = map (\<lambda>j. get (body a) (idx[axis := j])) [0..<?sh ! axis]"
      by (rule map_cong[OF refl], rule el) simp
    show "?g idx = fst r (map (\<lambda>j. get (body a) (idx[axis := j])) [0..<?sh ! axis])"
      unfolding n1 m ..
  qed
  have "reduce_data r a axis = Inr ?a2" using nb ra by (simp add: reduce_data_def)
  moreover have "shape ?a2 = ?sh[axis := 1]" using sh2 by simp
  moreover have "wf_ndarray ?a2" by (simp add: wf_ndarray_def has_shape_tabulate)
  moreover have "\<forall>idx. valid_index (shape ?a2) idx \<longrightarrow>
      get (body ?a2) idx = fst r (map (\<lambda>j. get (body a) (idx[axis := j])) [0..<?sh ! axis])"
    using val by (simp add: get_tabulate)
  ultimately show ?thesis by (intro exI[of _ ?a2]) simp
qed

lemma bind_res_assoc:
  "bind_res (bind_res m g) h = bind_res m (\<lambda>x. bind_res (g x) h)"
  by (cases m) simp_all

lemma reduce_var_eq:
  "reduce_var cls np metakeys dimkey func numweightkey denweightkey f varkey =
     (case map_of (variables f) varkey of
        None \<Rightarrow> Inl KeyError
      | Some var \<Rightarrow>
          bind_res (getattr_var cls var ''dimensions'') (\<lambda>d.
            case d of
              PTuple ds \<Rightarrow>
                (if dimkey \<notin> set ds then Inr f
                 else bind_res
                        (new_variable cls np metakeys dimkey func numweightkey denweightkey
                           (dimensions f) varkey var ds)
                        (\<lambda>nv. Inr (f\<lparr>variables := AList.update varkey nv (variables f)\<rparr>)))
            | _ \<Rightarrow> Inl Unmodelled))"
  unfolding reduce_var_def new_variable_def Let_def bind_res_assoc ..

lemma reduced_along_reduce_data:
  assumes "axis < length (shape a)"
  shows "\<exists>a2. reduce_data r a axis = Inr a2 \<and> reduced_along r axis a a2 \<and> wf_ndarray a2"
proof -
  from reduce_data_ok[OF assms, of r] obtain a2 where
    a2: "reduce_data r a axis = Inr a2" "shape a2 = (shape a)[axis := 1]" "wf_ndarray a2"
    and el: "\<And>idx. valid_index (shape a2) idx \<Longrightarrow>
       get (body a2) idx = fst r (map (\<lambda>j. get (body a) (idx[axis := j])) [0..<shape a ! axis])"
    by blast
  have "body a2 = tabulate (shape a2) (get (body a2))"
    using a2(3) by (simp add: wf_ndarray_def tabulate_get)
  also have "\<dots> = tabulate (shape a2)
        (\<lambda>idx. fst r (map (\<lambda>j. get (body a) (idx[axis := j])) [0..<shape a ! axis]))"
    by (rule tabulate_cong) (rule el)
  finally show ?thesis using a2 by (auto simp: reduced_along_def)
qed

lemma reduce_unweighted_ok:
  assumes "wf_var cls var" "np func = Some r" "reduce_data r (vdata var) axis = Inr a2"
  shows "reduce_unweighted cls np func var axis = Inr (as_view var a2)"
proof -
  from assms(3) obtain b where b: "getitem_newaxis (vdata var) (axis + 1) = Inr b"
    and a2: "reduce_axis r b axis = Inr a2"
    by (auto simp: reduce_data_def bind_res_def split: sum.splits)
  have s1: "var_getitem_newaxis cls var (axis + 1) = Inr (as_view var b)"
    using b assms(1) by (simp add: var_getitem_newaxis_def new_view_view_dict)
  have s2: "var_reduce_axis cls r (as_view var b) axis = Inr (as_view var a2)"
    using a2 assms(1) by (simp add: var_reduce_axis_def as_view_facts new_view_as_view)
  show ?thesis using assms(2) s1 s2 by (simp add: reduce_unweighted_def)
qed

lemma PseudoNetCDFVariable_of_view:
  assumes "wf_var cls var"
  shows "PseudoNetCDFVariable cls pdims varkey c ds (Some (ObjVar (as_view var a))) []
         = Inr (rebuilt var a c ds)"
proof -
  have e: "ellipsis_obj cls (ObjVar (as_view var a)) = Inr (ObjVar (as_view var a))"
    using assms by (simp add: ellipsis_obj_def ellipsis_var_def as_view_facts new_view_as_view)
  have d: "obj_data (ObjVar (as_view var a)) = Inr a"
    using assms by (simp add: obj_data_def as_view_facts)
  have n: "new_view cls a (ObjVar (as_view var a)) = Inr (as_view var a)"
    using assms by (rule new_view_as_view)
  show ?thesis
    unfolding PseudoNetCDFVariable_def
    apply (simp add: e d n)
    apply (simp add: rebuilt_def as_view_def)
    done
qed

lemma setitem0_pair_ok:
  assumes "wf_ndarray a" "shape a = n # ns" "n \<noteq> 0" "ns \<noteq> []" "last ns = 2"
  shows "\<exists>a3. setitem0_pair a lo hi = Inr a3"
proof -
  from assms obtain xs where xs: "body a = Node xs" "length xs = n"
    by (cases "body a") (auto simp: wf_ndarray_def)
  with assms(3) obtain c cs where "xs = c # cs" by (cases xs) auto
  then show ?thesis using assms xs by (simp add: setitem0_pair_def)
qed

lemma array_min_max_ok:
  "elems (body a) \<noteq> [] \<Longrightarrow> (\<exists>lo. array_min a = Inr lo) \<and> (\<exists>hi. array_max a = Inr hi)"
  by (cases "elems (body a)") (auto simp: array_min_def array_max_def)

lemma new_variable_ok:
  assumes wf: "wf_var cls var" and np: "np func = Some r"
    and ax: "index_of dimkey ds < length (shape (vdata var))"
    and br: "varkey \<in> set metakeys \<and> (contains ''_bounds'' varkey \<or> contains ''_bnds'' varkey)
               \<longrightarrow> wf_ndarray (vdata var) \<and> bounds_ready var (index_of dimkey ds)"
  shows "\<exists>a. new_variable cls np metakeys dimkey func None None pdims varkey var ds
               = Inr (rebuilt var a (dtype_char (vdata var)) ds)
           \<and> (varkey \<notin> set metakeys \<longrightarrow> reduced_along r (index_of dimkey ds) (vdata var) a)"
proof -
  let ?ax = "index_of dimkey ds"
  from reduced_along_reduce_data[OF ax, of r] obtain a2 where
    a2: "reduce_data r (vdata var) ?ax = Inr a2" "reduced_along r ?ax (vdata var) a2" "wf_ndarray a2"
    by blast
  have ru: "reduce_unweighted cls np func var ?ax = Inr (as_view var a2)"
    using reduce_unweighted_ok[where np = np and func = func, OF wf np a2(1)] .
  show ?thesis
  proof (cases "varkey \<in> set metakeys \<and> (contains ''_bounds'' varkey \<or> contains ''_bnds'' varkey)")
    case False
    then have "new_variable cls np metakeys dimkey func None None pdims varkey var ds
               = Inr (rebuilt var a2 (dtype_char (vdata var)) ds)"
      unfolding new_variable_def Let_def
      using ru PseudoNetCDFVariable_of_view[OF wf] by auto
    then show ?thesis using a2(2) by blast
  next
    case True
    with br have wa: "wf_ndarray (vdata var)" and rdy: "bounds_ready var ?ax" by auto
    from rdy obtain lo hi where lo: "array_min (vdata var) = Inr lo" and hi: "array_max (vdata var) = Inr hi"
      using array_min_max_ok[of "vdata var"] by (auto simp: bounds_ready_def)
    from rdy obtain n ns where sh: "(shape (vdata var))[?ax := 1] = n # ns" "n \<noteq> 0" "ns \<noteq> []" "last ns = 2"
      by (auto simp: bounds_ready_def split: list.splits)
    have sh2: "shape a2 = n # ns" using a2(2) sh(1) by (simp add: reduced_along_def)
    from setitem0_pair_ok[OF a2(3) sh2 sh(2,3,4), of lo hi] obtain a3 where
      a3: "setitem0_pair a2 lo hi = Inr a3" by blast
    have ev: "ellipsis_var cls var = Inr (as_view var (vdata var))"
      using wf by (simp add: ellipsis_var_def new_view_view_dict)
    have upd: "(as_view var a2)\<lparr>vdata := a3\<rparr> = as_view var a3" by (simp add: as_view_def)
    have "new_variable cls np metakeys dimkey func None None pdims varkey var ds
               = Inr (rebuilt var a3 (dtype_char (vdata var)) ds)"
      unfolding new_variable_def Let_def
      using True ru ev lo hi a3 upd PseudoNetCDFVariable_of_view[OF wf] wf
      by (auto simp: as_view_facts)
    then show ?thesis using True by blast
  qed
qed

lemma foldM_vars_keyed_gen:
  fixes step :: "'a pfile \<Rightarrow> string \<Rightarrow> error + 'a pfile"
  assumes step: "\<And>f k v. (k, v) \<in> set vs \<Longrightarrow> map_of (variables f) k = Some v \<Longrightarrow>
       step f k = Inr (f\<lparr>variables := AList.update k (G (k, v)) (variables f)\<rparr>)"
  shows "distinct (map fst (ps @ ss)) \<Longrightarrow> set ss \<subseteq> set vs \<Longrightarrow>
     variables f = map (\<lambda>kv. (fst kv, G kv)) ps @ ss \<Longrightarrow>
     foldM step f (map fst ss)
       = Inr (f\<lparr>variables := map (\<lambda>kv. (fst kv, G kv)) (ps @ ss)\<rparr>)"
proof (induction ss arbitrary: ps f)
  case Nil
  then show ?case by simp
next
  case (Cons kv ss)
  obtain k v where kv: "kv = (k, v)" by (cases kv)
  have nk: "k \<notin> fst ` set (map (\<lambda>kv. (fst kv, G kv)) ps)"
    using Cons.prems(1) kv by (auto simp: image_iff)
  have lk: "map_of (variables f) k = Some v"
    using Cons.prems(3) kv map_of_middle[OF nk] by simp
  have inv: "(k, v) \<in> set vs" using Cons.prems(2) kv by auto
  let ?f' = "f\<lparr>variables := AList.update k (G (k, v)) (variables f)\<rparr>"
  have st: "step f k = Inr ?f'" using step[OF inv lk] .
  have v': "variables ?f' = map (\<lambda>kv. (fst kv, G kv)) (ps @ [(k, v)]) @ ss"
    using Cons.prems(3) kv update_middle[OF nk] by simp
  have d': "distinct (map fst ((ps @ [(k, v)]) @ ss))" using Cons.prems(1) kv by simp
  have s': "set ss \<subseteq> set vs" using Cons.prems(2) by auto
  from Cons.IH[OF d' s' v'] st kv show ?case by simp
qed

lemma new_variable_pdims:
  "new_variable cls np metakeys dimkey func nk dk pdims varkey var ds
   = new_variable cls np metakeys dimkey func nk dk [] varkey var ds"
  by (simp add: new_variable_def PseudoNetCDFVariable_def)

lemma reduce_loop:
  assumes ok: "file_ok cls f" and dm: "map_of (dimensions f) dimkey = Some dm"
    and np: "np func = Some r"
    and bounds: "list_all (\<lambda>kv. fst kv \<in> set metakeys
                     \<and> (contains ''_bounds'' (fst kv) \<or> contains ''_bnds'' (fst kv))
                     \<and> dimkey \<in> set (var_dims (snd kv))
                   \<longrightarrow> bounds_ready (snd kv) (index_of dimkey (var_dims (snd kv)))) (variables f)"
  shows "foldM (reduce_var cls np metakeys dimkey func None None) (f\<lparr>dimensions := D\<rparr>)
           (map fst (variables f))
     = Inr (f\<lparr>dimensions := D,
              variables := map (\<lambda>kv. (fst kv, reduced_var cls np metakeys dimkey func kv))
                             (variables f)\<rparr>)"
    and "list_all (\<lambda>kv. fst kv \<notin> set metakeys \<and> dimkey \<in> set (var_dims (snd kv)) \<longrightarrow>
            shape (vdata (snd kv)) ! index_of dimkey (var_dims (snd kv)) = d_len dm \<and>
            reduced_along r (index_of dimkey (var_dims (snd kv))) (vdata (snd kv))
              (vdata (reduced_var cls np metakeys dimkey func kv))) (variables f)"
proof -
  have each: "\<And>k v. (k, v) \<in> set (variables f) \<Longrightarrow> dimkey \<in> set (var_dims v) \<Longrightarrow>
      \<exists>a. new_variable cls np metakeys dimkey func None None [] k v (var_dims v)
             = Inr (rebuilt v a (dtype_char (vdata v)) (var_dims v))
         \<and> (k \<notin> set metakeys \<longrightarrow> reduced_along r (index_of dimkey (var_dims v)) (vdata v) a)
         \<and> shape (vdata v) ! index_of dimkey (var_dims v) = d_len dm"
  proof -
    fix k v assume kv: "(k, v) \<in> set (variables f)" and ref: "dimkey \<in> set (var_dims v)"
    from ok kv have vok: "var_ok cls f v" by (auto simp: file_ok_def list_all_iff)
    then have wf: "wf_var cls v" and wa: "wf_ndarray (vdata v)" and sm: "shape_matches f v"
      by (auto simp: var_ok_def)
    note ax = shape_matches_axis[OF sm ref dm]
    have br: "k \<in> set metakeys \<and> (contains ''_bounds'' k \<or> contains ''_bnds'' k)
               \<longrightarrow> wf_ndarray (vdata v) \<and> bounds_ready v (index_of dimkey (var_dims v))"
      using bounds kv ref wa by (auto simp: list_all_iff)
    from new_variable_ok[where np = np and func = func, OF wf np ax(1) br, of "[]"] ax(2)
    show "\<exists>a. new_variable cls np metakeys dimkey func None None [] k v (var_dims v)
             = Inr (rebuilt v a (dtype_char (vdata v)) (var_dims v))
         \<and> (k \<notin> set metakeys \<longrightarrow> reduced_along r (index_of dimkey (var_dims v)) (vdata v) a)
         \<and> shape (vdata v) ! index_of dimkey (var_dims v) = d_len dm"
      by blast
  qed
  have step: "\<And>f' k v. (k, v) \<in> set (variables f) \<Longrightarrow> map_of (variables f') k = Some v \<Longrightarrow>
       reduce_var cls np metakeys dimkey func None None f' k
         = Inr (f'\<lparr>variables := AList.update k (reduced_var cls np metakeys dimkey func (k, v))
                                 (variables f')\<rparr>)"
  proof -
    fix f' :: "'a pfile" and k v
    assume kv: "(k, v) \<in> set (variables f)" and lk: "map_of (variables f') k = Some v"
    from ok kv have vok: "var_ok cls f v" by (auto simp: file_ok_def list_all_iff)
    then have wf: "wf_var cls v" by (auto simp: var_ok_def)
    from vok obtain ds where ds: "map_of (vdict v) ''dimensions'' = Some (PTuple ds)"
      by (auto simp: var_ok_def split: option.splits pyval.splits)
    note vd = var_dims_getattr[OF wf ds]
    show "reduce_var cls np metakeys dimkey func None None f' k
         = Inr (f'\<lparr>variables := AList.update k (reduced_var cls np metakeys dimkey func (k, v))
                                 (variables f')\<rparr>)"
    proof (cases "dimkey \<in> set (var_dims v)")
      case False
      then show ?thesis
        using lk vd by (simp add: reduce_var_eq reduced_var_def update_triv)
    next
      case True
      from each[OF kv True] obtain a where
        a: "new_variable cls np metakeys dimkey func None None [] k v (var_dims v)
             = Inr (rebuilt v a (dtype_char (vdata v)) (var_dims v))" by blast
      have "new_variable cls np metakeys dimkey func None None (dimensions f') k v ds
             = Inr (rebuilt v a (dtype_char (vdata v)) (var_dims v))"
        using a vd new_variable_pdims[of cls np metakeys dimkey func None None "dimensions f'" k v ds]
        by simp
      then show ?thesis
        using lk vd True a by (simp add: reduce_var_eq reduced_var_def)
    qed
  qed
  have d: "distinct (map fst (variables f))" using ok by (simp add: file_ok_def)
  show "foldM (reduce_var cls np metakeys dimkey func None None) (f\<lparr>dimensions := D\<rparr>)
           (map fst (variables f))
     = Inr (f\<lparr>dimensions := D,
              variables := map (\<lambda>kv. (fst kv, reduced_var cls np metakeys dimkey func kv))
                             (variables f)\<rparr>)"
    using foldM_vars_keyed_gen[where vs = "variables f" and ps = "[]" and ss = "variables f"
        and f = "f\<lparr>dimensions := D\<rparr>"
        and step = "reduce_var cls np metakeys dimkey func None None"
        and G = "reduced_var cls np metakeys dimkey func", OF step] d
    by simp
  show "list_all (\<lambda>kv. fst kv \<notin> set metakeys \<and> dimkey \<in> set (var_dims (snd kv)) \<longrightarrow>
            shape (vdata (snd kv)) ! index_of dimkey (var_dims (snd kv)) = d_len dm \<and>
            reduced_along r (index_of dimkey (var_dims (snd kv))) (vdata (snd kv))
              (vdata (reduced_var cls np metakeys dimkey func kv))) (variables f)"
    unfolding list_all_iff
  proof (intro ballI impI)
    fix kv assume m: "kv \<in> set (variables f)"
      and c: "fst kv \<notin> set metakeys \<and> dimkey \<in> set (var_dims (snd kv))"
    obtain k v where kv: "kv = (k, v)" by (cases kv)
    from each[of k v] m c kv obtain a where
      a: "new_variable cls np metakeys dimkey func None None [] k v (var_dims v)
             = Inr (rebuilt v a (dtype_char (vdata v)) (var_dims v))"
      "reduced_along r (index_of dimkey (var_dims v)) (vdata v) a"
      "shape (vdata v) ! index_of dimkey (var_dims v) = d_len dm" by auto
    show "shape (vdata (snd kv)) ! index_of dimkey (var_dims (snd kv)) = d_len dm \<and>
            reduced_along r (index_of dimkey (var_dims (snd kv))) (vdata (snd kv))
              (vdata (reduced_var cls np metakeys dimkey func kv))"
      using a c kv by (simp add: reduced_var_def rebuilt_def)
  qed
qed

lemma list_all2_map_same:
  "list_all2 P xs (map g xs) = list_all (\<lambda>x. P x (g x)) xs"
  by (induction xs) auto

lemma parse_reducedef_two:
  assumes "CHR '','' \<notin> set dimkey" "CHR '','' \<notin> set func"
  shows "parse_reducedef f (dimkey @ '','' @ func) = Inr (dimkey, func, None, None)"
  using assms by (simp add: parse_reducedef_def split_comma_append split_comma_no_comma)

lemma reduce_dim_no_siblings:
  assumes ok: "file_ok cls f" and dm: "map_of (dimensions f) dimkey = Some dm"
    and np: "np func = Some r"
    and nc: "CHR '','' \<notin> set dimkey" "CHR '','' \<notin> set func"
    and sib: "fuzzydim \<longrightarrow> partial_check f dimkey = []"
    and bounds: "list_all (\<lambda>kv. fst kv \<in> set metakeys
                     \<and> (contains ''_bounds'' (fst kv) \<or> contains ''_bnds'' (fst kv))
                     \<and> dimkey \<in> set (var_dims (snd kv))
                   \<longrightarrow> bounds_ready (snd kv) (index_of dimkey (var_dims (snd kv)))) (variables f)"
  shows "\<exists>D. reduce_dim cls np f (dimkey @ '','' @ func) fuzzydim metakeys
     = Inr (f\<lparr>dimensions := D,
              variables := map (\<lambda>kv. (fst kv, reduced_var cls np
                                 (filter (\<lambda>k. k \<in> set (map fst (variables f))) metakeys)
                                 dimkey func kv)) (variables f),
              f_ncattrs := f_ncattrs f @ [''history''],
              fdict := AList.update ''history''
                 (PStr (history_of f @ ''reduce_dim(f, '' @ (dimkey @ '','' @ func)
                          @ '', fuzzydim = '' @ str_bool fuzzydim @ '', metakeys = ''
                          @ str_list (filter (\<lambda>k. k \<in> set (map fst (variables f))) metakeys)
                          @ ''); '')) (fdict f)\<rparr>)
      \<and> map_of D dimkey = Some \<lparr>d_len = 1, d_unlimited = d_unlimited dm\<rparr>
      \<and> map fst D = map fst (dimensions f)"
proof -
  let ?mk = "filter (\<lambda>k. k \<in> set (map fst (variables f))) metakeys"
  let ?D2 = "AList.update dimkey (PseudoNetCDFDimension 1) (dimensions f)"
  let ?D = "if d_unlimited dm
            then AList.update dimkey (setunlimited (PseudoNetCDFDimension 1) True) ?D2 else ?D2"
  have p: "parse_reducedef f (dimkey @ '','' @ func) = Inr (dimkey, func, None, None)"
    by (rule parse_reducedef_two[OF nc])
  have b': "list_all (\<lambda>kv. fst kv \<in> set ?mk
                     \<and> (contains ''_bounds'' (fst kv) \<or> contains ''_bnds'' (fst kv))
                     \<and> dimkey \<in> set (var_dims (snd kv))
                   \<longrightarrow> bounds_ready (snd kv) (index_of dimkey (var_dims (snd kv)))) (variables f)"
    using bounds by (auto simp: list_all_iff)
  have loop: "foldM (reduce_var cls np ?mk dimkey func None None) (f\<lparr>dimensions := ?D\<rparr>)
           (map fst (variables f))
     = Inr (f\<lparr>dimensions := ?D,
              variables := map (\<lambda>kv. (fst kv, reduced_var cls np ?mk dimkey func kv))
                             (variables f)\<rparr>)"
    by (rule reduce_loop(1)[where np = np and func = func, OF ok dm np b'])
  have h: "\<And>ds vs. history_ok (f\<lparr>dimensions := ds, variables := vs\<rparr>)"
    "\<And>ds vs. history_of (f\<lparr>dimensions := ds, variables := vs\<rparr>) = history_of f"
    using ok by (auto simp: file_ok_def history_ok_def history_of_def)
  have s: "(if fuzzydim then foldM (\<lambda>f' dimk. reduce_dim_fuel (length (dimensions f)) cls np f'
               (dimk @ '','' @ func @ [] @ []) True default_metakeys)
             f (partial_check f dimkey) else Inr f) = Inr f"
    using sib by auto
  have f3: "(if d_unlimited dm
             then createDimension f dimkey 1\<lparr>dimensions := AList.update dimkey
                      (setunlimited (PseudoNetCDFDimension 1) True)
                      (dimensions (createDimension f dimkey 1))\<rparr>
             else createDimension f dimkey 1) = f\<lparr>dimensions := ?D\<rparr>"
    by (simp add: createDimension_def)
  have run: "reduce_dim cls np f (dimkey @ '','' @ func) fuzzydim metakeys
     = Inr (f\<lparr>dimensions := ?D,
              variables := map (\<lambda>kv. (fst kv, reduced_var cls np ?mk dimkey func kv)) (variables f),
              f_ncattrs := f_ncattrs f @ [''history''],
              fdict := AList.update ''history''
                 (PStr (history_of f @ ''reduce_dim(f, '' @ (dimkey @ '','' @ func)
                          @ '', fuzzydim = '' @ str_bool fuzzydim @ '', metakeys = ''
                          @ str_list ?mk @ ''); '')) (fdict f)\<rparr>)"
    unfolding reduce_dim_def reduce_dim_fuel.simps Let_def p
    using dm sib loop
    by (cases fuzzydim; cases "d_unlimited dm")
       (simp_all add: isunlimited_def createDimension_def append_history_ok h del: foldM.simps(2))
  have lk: "map_of ?D dimkey = Some \<lparr>d_len = 1, d_unlimited = d_unlimited dm\<rparr>"
    by (simp add: update_conv' setunlimited_def PseudoNetCDFDimension_def)
  have "dimkey \<in> fst ` set (dimensions f)" using dm by (rule map_of_SomeD[THEN imageI[where f = fst], simplified])
  then have ks: "map fst ?D = map fst (dimensions f)"
    by (simp add: update_keys)
  from run lk ks show ?thesis by blast
qed


lemma ex_series_eval:
  "map_sum id (\<lambda>f. map (\<lambda>kv. body (vdata (snd kv))) (variables f))
     (reduce_dim ex_cls ex_np ex_series ''time,mean'' True default_metakeys)
   = Inr [Node [Node [Leaf 2, Leaf 3, Leaf (11 / 2)]], Node [Node [Leaf 0, Leaf 2]]]"
  by code_simp



subsection \<open>What a call leaves as it was, and what it changes\<close>

lemma foldM_inv:
  "(\<And>s x s'. x \<in> set xs \<Longrightarrow> I s \<Longrightarrow> g s x = Inr s' \<Longrightarrow> I s') \<Longrightarrow>
   I s \<Longrightarrow> foldM g s xs = Inr s' \<Longrightarrow> I s'"
proof (induction xs arbitrary: s)
  case Nil
  then show ?case by simp
next
  case (Cons x xs)
  from Cons.prems(3) obtain s1 where s1: "g s x = Inr s1" and r: "foldM g s1 xs = Inr s'"
    by (cases "g s x") auto
  have i1: "I s1" using Cons.prems(1)[of x s s1] Cons.prems(2) s1 by simp
  have step: "\<And>s x s'. x \<in> set xs \<Longrightarrow> I s \<Longrightarrow> g s x = Inr s' \<Longrightarrow> I s'"
  proof -
    fix s x s' assume "x \<in> set xs" "I s" "g s x = Inr s'"
    then show "I s'" using Cons.prems(1)[of x s s'] by simp
  qed
  show ?case by (rule Cons.IH[OF step i1 r])
qed

lemma slice_var_frame:
  assumes "slice_var cls dimkey dmin dmax dstride u f k = Inr f'"
  shows "f_ncattrs f' = f_ncattrs f" "fdict f' = fdict f"
    "dimkey \<in> fst ` set (dimensions f) \<Longrightarrow> map fst (dimensions f') = map fst (dimensions f)"
proof -
  have c: "f' = f \<or> (\<exists>nd vo. f' = f\<lparr>dimensions := AList.update dimkey nd (dimensions f),
                                   variables := AList.update k vo (variables f)\<rparr>)"
    using assms unfolding slice_var_def Let_def
    by (auto simp: bind_res_def split: option.splits sum.splits pyval.splits if_splits)
  then show "f_ncattrs f' = f_ncattrs f" "fdict f' = fdict f" by auto
  assume "dimkey \<in> fst ` set (dimensions f)"
  then have "map fst (AList.update dimkey nd (dimensions f)) = map fst (dimensions f)" for nd
    by (simp add: update_keys)
  with c show "map fst (dimensions f') = map fst (dimensions f)" by auto
qed

lemma reduce_var_frame:
  assumes "reduce_var cls np metakeys dimkey func nk dk f k = Inr f'"
  shows "f_ncattrs f' = f_ncattrs f" "fdict f' = fdict f" "dimensions f' = dimensions f"
proof -
  have "f' = f \<or> (\<exists>vo. f' = f\<lparr>variables := AList.update k vo (variables f)\<rparr>)"
    using assms unfolding reduce_var_eq
    by (auto simp: bind_res_def split: option.splits sum.splits pyval.splits if_splits)
  then show "f_ncattrs f' = f_ncattrs f" "fdict f' = fdict f" "dimensions f' = dimensions f"
    by auto
qed

lemma append_history_frame:
  assumes "append_history f h = Inr f'"
  shows "f_ncattrs f' = f_ncattrs f @ [''history'']" "dimensions f' = dimensions f"
    "variables f' = variables f"
  using assms
  by (auto simp: append_history_def setattr_file_def object_setattr_def bind_res_def
      split: if_splits sum.splits pyval.splits)

lemma slice_dim_fuel_SucE:
  assumes "slice_dim_fuel (Suc n) cls f sd fz = Inr f'"
  obtains dimkey dmin dmax dstride dm f1 f2 where
    "parse_slicedef sd = Inr (dimkey, dmin, dmax, dstride)"
    "map_of (dimensions f) dimkey = Some dm"
    "(if fz then
        foldM (\<lambda>f' dimk. slice_dim_fuel n cls f'
                 (dimk @ '','' @ str_opt dmin @ '','' @ str_opt dmax @ '','' @ str_opt dstride) True)
          f (partial_check f dimkey)
      else Inr f) = Inr f1"
    "foldM (slice_var cls dimkey dmin dmax dstride (isunlimited dm)) f1 (map fst (variables f1)) = Inr f2"
    "append_history f2 (''slice_dim(f, '' @ sd @ '', fuzzydim = '' @ str_bool fz @ ''); '') = Inr f'"
proof -
  obtain dimkey dmin dmax dstride where p: "parse_slicedef sd = Inr (dimkey, dmin, dmax, dstride)"
    using assms by (cases "parse_slicedef sd") (auto simp: Let_def)
  obtain dm where dm: "map_of (dimensions f) dimkey = Some dm"
    using assms p by (cases "map_of (dimensions f) dimkey") (auto simp: Let_def)
  let ?sib = "(if fz then
        foldM (\<lambda>f' dimk. slice_dim_fuel n cls f'
                 (dimk @ '','' @ str_opt dmin @ '','' @ str_opt dmax @ '','' @ str_opt dstride) True)
          f (partial_check f dimkey)
      else Inr f)"
  obtain f1 where f1: "?sib = Inr f1"
    using assms p dm by (cases ?sib) (auto simp: Let_def simp del: foldM.simps)
  let ?loop = "foldM (slice_var cls dimkey dmin dmax dstride (isunlimited dm)) f1 (map fst (variables f1))"
  obtain f2 where f2: "?loop = Inr f2"
    using assms p dm f1 by (cases ?loop) (auto simp: Let_def simp del: foldM.simps)
  have "append_history f2 (''slice_dim(f, '' @ sd @ '', fuzzydim = '' @ str_bool fz @ ''); '') = Inr f'"
    using assms p dm f1 f2 by (auto simp: Let_def simp del: foldM.simps)
  then show ?thesis using that p dm f1 f2 by blast
qed

lemma slice_dim_fuel_frame:
  "slice_dim_fuel n cls (f :: 'a pfile) sd fz = Inr f' \<Longrightarrow>
     map fst (dimensions f') = map fst (dimensions f) \<and> length (f_ncattrs f) < length (f_ncattrs f')"
proof (induction n arbitrary: f sd fz f')
  case 0
  then show ?case by simp
next
  case (Suc n)
  from Suc.prems obtain dimkey dmin dmax dstride dm f1 f2 where
    p: "parse_slicedef sd = Inr (dimkey, dmin, dmax, dstride)"
    and dm: "map_of (dimensions f) dimkey = Some dm"
    and f1: "(if fz then
        foldM (\<lambda>f' dimk. slice_dim_fuel n cls f'
                 (dimk @ '','' @ str_opt dmin @ '','' @ str_opt dmax @ '','' @ str_opt dstride) True)
          f (partial_check f dimkey)
      else Inr f) = Inr f1"
    and f2: "foldM (slice_var cls dimkey dmin dmax dstride (isunlimited dm)) f1 (map fst (variables f1)) = Inr f2"
    and f': "append_history f2 (''slice_dim(f, '' @ sd @ '', fuzzydim = '' @ str_bool fz @ ''); '') = Inr f'"
    by (rule slice_dim_fuel_SucE)
  let ?I = "\<lambda>s. map fst (dimensions s) = map fst (dimensions f)
               \<and> length (f_ncattrs f) \<le> length (f_ncattrs s)"
  have i1: "?I f1"
  proof (cases fz)
    case False
    then show ?thesis using f1 by simp
  next
    case True
    then have fo: "foldM (\<lambda>f' dimk. slice_dim_fuel n cls f'
                 (dimk @ '','' @ str_opt dmin @ '','' @ str_opt dmax @ '','' @ str_opt dstride) True)
          f (partial_check f dimkey) = Inr f1" using f1 by simp
    show ?thesis
    proof (rule foldM_inv[where I = ?I, OF _ _ fo])
      show "?I f" by simp
    next
      fix s :: "'a pfile" and x s'
      assume "?I s" and "slice_dim_fuel n cls s
          (x @ '','' @ str_opt dmin @ '','' @ str_opt dmax @ '','' @ str_opt dstride) True = Inr s'"
      then show "?I s'" using Suc.IH[of s _ True s'] by fastforce
    qed
  qed
  have dk: "dimkey \<in> fst ` set (dimensions f)"
    using dm by (metis map_of_eq_None_iff option.distinct(1))
  let ?J = "\<lambda>s. map fst (dimensions s) = map fst (dimensions f) \<and> f_ncattrs s = f_ncattrs f1"
  have i2: "?J f2"
  proof (rule foldM_inv[where I = ?J, OF _ _ f2])
    show "?J f1" using i1 by simp
  next
    fix s :: "'a pfile" and x s'
    assume j: "?J s" and st: "slice_var cls dimkey dmin dmax dstride (isunlimited dm) s x = Inr s'"
    have "dimkey \<in> fst ` set (dimensions s)"
      using j dk by (metis image_set)
    then show "?J s'" using slice_var_frame[OF st] j by simp
  qed
  show ?case using append_history_frame[OF f'] i1 i2 by simp
qed

lemma reduce_dim_fuel_SucE:
  assumes "reduce_dim_fuel (Suc n) cls np (f :: ('a::{zero,linorder}) pfile) rd fz mk0 = Inr f'"
  obtains dimkey func nwk dwk f1 dm f4 where
    "parse_reducedef f rd = Inr (dimkey, func, nwk, dwk)"
    "(if fz then
        foldM (\<lambda>f' dimk. reduce_dim_fuel n cls np f'
                 (dimk @ '','' @ func
                    @ (case nwk of None \<Rightarrow> [] | Some nk \<Rightarrow> '','' @ nk)
                    @ (case dwk of None \<Rightarrow> [] | Some dk \<Rightarrow> '','' @ dk))
                 True default_metakeys)
          f (partial_check f dimkey)
      else Inr f) = Inr f1"
    "map_of (dimensions f1) dimkey = Some dm"
    "\<exists>D. map fst D = map fst (dimensions f1) \<and>
         foldM (reduce_var cls np (filter (\<lambda>k. k \<in> set (map fst (variables f))) mk0)
                  dimkey func nwk dwk) (f1\<lparr>dimensions := D\<rparr>) (map fst (variables f1)) = Inr f4"
    "\<exists>h. append_history f4 h = Inr f'"
proof -
  obtain dimkey func nwk dwk where p: "parse_reducedef f rd = Inr (dimkey, func, nwk, dwk)"
    using assms by (cases "parse_reducedef f rd") (auto simp: Let_def)
  let ?sib = "(if fz then
        foldM (\<lambda>f' dimk. reduce_dim_fuel n cls np f'
                 (dimk @ '','' @ func
                    @ (case nwk of None \<Rightarrow> [] | Some nk \<Rightarrow> '','' @ nk)
                    @ (case dwk of None \<Rightarrow> [] | Some dk \<Rightarrow> '','' @ dk))
                 True default_metakeys)
          f (partial_check f dimkey)
      else Inr f)"
  obtain f1 where f1: "?sib = Inr f1"
    using assms p by (cases ?sib) (auto simp: Let_def simp del: foldM.simps)
  obtain dm where dm: "map_of (dimensions f1) dimkey = Some dm"
    using assms p f1 by (cases "map_of (dimensions f1) dimkey") (auto simp: Let_def simp del: foldM.simps)
  let ?D2 = "AList.update dimkey (PseudoNetCDFDimension 1) (dimensions f1)"
  let ?D = "if isunlimited dm
            then AList.update dimkey (setunlimited (PseudoNetCDFDimension 1) True) ?D2 else ?D2"
  let ?loop = "foldM (reduce_var cls np (filter (\<lambda>k. k \<in> set (map fst (variables f))) mk0)
                  dimkey func nwk dwk) (f1\<lparr>dimensions := ?D\<rparr>) (map fst (variables f1))"
  have dk: "dimkey \<in> fst ` set (dimensions f1)"
    using dm by (metis map_of_eq_None_iff option.distinct(1))
  have kD: "map fst ?D = map fst (dimensions f1)" using dk by (simp add: update_keys)
  have body: "bind_res ?loop (\<lambda>f4. append_history f4
        (''reduce_dim(f, '' @ rd @ '', fuzzydim = '' @ str_bool fz @ '', metakeys = ''
           @ str_list (filter (\<lambda>k. k \<in> set (map fst (variables f))) mk0) @ ''); '')) = Inr f'"
    using assms p f1 dm
    by (cases "isunlimited dm") (auto simp: Let_def createDimension_def simp del: foldM.simps)
  then obtain f4 where f4: "?loop = Inr f4" by (cases ?loop) auto
  with body have "\<exists>h. append_history f4 h = Inr f'" by auto
  then show ?thesis using that[OF p f1 dm] kD f4 by blast
qed

lemma reduce_dim_fuel_frame:
  "reduce_dim_fuel n cls np (f :: ('a::{zero,linorder}) pfile) rd fz mk0 = Inr f' \<Longrightarrow>
     map fst (dimensions f') = map fst (dimensions f) \<and> length (f_ncattrs f) < length (f_ncattrs f')"
proof (induction n arbitrary: f rd fz mk0 f')
  case 0
  then show ?case by simp
next
  case (Suc n)
  from Suc.prems obtain dimkey func nwk dwk f1 dm f4 where
    p: "parse_reducedef f rd = Inr (dimkey, func, nwk, dwk)"
    and f1: "(if fz then
        foldM (\<lambda>f' dimk. reduce_dim_fuel n cls np f'
                 (dimk @ '','' @ func
                    @ (case nwk of None \<Rightarrow> [] | Some nk \<Rightarrow> '','' @ nk)
                    @ (case dwk of None \<Rightarrow> [] | Some dk \<Rightarrow> '','' @ dk))
                 True default_metakeys)
          f (partial_check f dimkey)
      else Inr f) = Inr f1"
    and dm: "map_of (dimensions f1) dimkey = Some dm"
    and f4: "\<exists>D. map fst D = map fst (dimensions f1) \<and>
         foldM (reduce_var cls np (filter (\<lambda>k. k \<in> set (map fst (variables f))) mk0)
                  dimkey func nwk dwk) (f1\<lparr>dimensions := D\<rparr>) (map fst (variables f1)) = Inr f4"
    and f': "\<exists>h. append_history f4 h = Inr f'"
    by (rule reduce_dim_fuel_SucE)
  let ?I = "\<lambda>s :: 'a pfile. map fst (dimensions s) = map fst (dimensions f)
               \<and> length (f_ncattrs f) \<le> length (f_ncattrs s)"
  have i1: "?I f1"
  proof (cases fz)
    case False
    then show ?thesis using f1 by simp
  next
    case True
    then have fo: "foldM (\<lambda>f' dimk. reduce_dim_fuel n cls np f'
                 (dimk @ '','' @ func
                    @ (case nwk of None \<Rightarrow> [] | Some nk \<Rightarrow> '','' @ nk)
                    @ (case dwk of None \<Rightarrow> [] | Some dk \<Rightarrow> '','' @ dk))
                 True default_metakeys)
          f (partial_check f dimkey) = Inr f1" using f1 by simp
    show ?thesis
    proof (rule foldM_inv[where I = ?I, OF _ _ fo])
      show "?I f" by simp
    next
      fix s :: "'a pfile" and x s'
      assume "?I s" and "reduce_dim_fuel n cls np s
                 (x @ '','' @ func
                    @ (case nwk of None \<Rightarrow> [] | Some nk \<Rightarrow> '','' @ nk)
                    @ (case dwk of None \<Rightarrow> [] | Some dk \<Rightarrow> '','' @ dk))
                 True default_metakeys = Inr s'"
      then show "?I s'" using Suc.IH[of s _ True default_metakeys s'] by fastforce
    qed
  qed
  from f4 obtain D where kD: "map fst D = map fst (dimensions f1)"
    and lo: "foldM (reduce_var cls np (filter (\<lambda>k. k \<in> set (map fst (variables f))) mk0)
                  dimkey func nwk dwk) (f1\<lparr>dimensions := D\<rparr>) (map fst (variables f1)) = Inr f4"
    by blast
  let ?J = "\<lambda>s :: 'a pfile. dimensions s = D \<and> f_ncattrs s = f_ncattrs f1"
  have i2: "?J f4"
  proof (rule foldM_inv[where I = ?J, OF _ _ lo])
    show "?J (f1\<lparr>dimensions := D\<rparr>)" by simp
  next
    fix s :: "'a pfile" and x s'
    assume j: "?J s" and st: "reduce_var cls np (filter (\<lambda>k. k \<in> set (map fst (variables f))) mk0)
                  dimkey func nwk dwk s x = Inr s'"
    show "?J s'" using reduce_var_frame[OF st] j by simp
  qed
  from f' obtain h where h: "append_history f4 h = Inr f'" by blast
  show ?case using append_history_frame[OF h] i1 i2 kD by simp
qed

lemma slice_dim_changes_file:
  assumes "slice_dim cls f sd fz = Inr f'"
  shows "f' \<noteq> f"
  using slice_dim_fuel_frame[OF assms[unfolded slice_dim_def]] by auto

lemma reduce_dim_changes_file:
  assumes "reduce_dim cls np f rd fz mk = Inr f'"
  shows "f' \<noteq> f"
  using reduce_dim_fuel_frame[OF assms[unfolded reduce_dim_def]] by auto

lemma slice_dim_ref_in_place:
  assumes "slice_dim_ref cls h r sd fz = Inr (h1, r1)"
  shows "r1 = r \<and> length h1 = length h \<and> slice_dim cls (h ! r) sd fz = Inr (h1 ! r)
         \<and> h1 ! r \<noteq> h ! r \<and> (\<forall>i < length h. i \<noteq> r \<longrightarrow> h1 ! i = h ! i)"
proof -
  have r: "r < length h"
  proof (rule ccontr)
    assume "\<not> r < length h"
    then have "slice_dim_ref cls h r sd fz = Inl Unmodelled" unfolding slice_dim_ref_def by simp
    with assms show False by simp
  qed
  have e: "bind_res (slice_dim cls (h ! r) sd fz) (\<lambda>f'. Inr (h[r := f'], r)) = Inr (h1, r1)"
    using assms r unfolding slice_dim_ref_def by simp
  show ?thesis
  proof (cases "slice_dim cls (h ! r) sd fz")
    case (Inl err)
    then show ?thesis using e by simp
  next
    case (Inr f')
    have "h1 = h[r := f']" "r1 = r" using e unfolding Inr by auto
    then show ?thesis using r Inr slice_dim_changes_file[OF Inr] by simp
  qed
qed

lemma reduce_dim_ref_in_place:
  assumes "reduce_dim_ref cls np h r rd fz mk = Inr (h2, r2)"
  shows "r2 = r \<and> length h2 = length h \<and> reduce_dim cls np (h ! r) rd fz mk = Inr (h2 ! r)
         \<and> h2 ! r \<noteq> h ! r \<and> (\<forall>i < length h. i \<noteq> r \<longrightarrow> h2 ! i = h ! i)"
proof -
  have r: "r < length h"
  proof (rule ccontr)
    assume "\<not> r < length h"
    then have "reduce_dim_ref cls np h r rd fz mk = Inl Unmodelled"
      unfolding reduce_dim_ref_def by simp
    with assms show False by simp
  qed
  have e: "bind_res (reduce_dim cls np (h ! r) rd fz mk) (\<lambda>f'. Inr (h[r := f'], r)) = Inr (h2, r2)"
    using assms r unfolding reduce_dim_ref_def by simp
  show ?thesis
  proof (cases "reduce_dim cls np (h ! r) rd fz mk")
    case (Inl err)
    then show ?thesis using e by simp
  next
    case (Inr f')
    have "h2 = h[r := f']" "r2 = r" using e unfolding Inr by auto
    then show ?thesis using r Inr reduce_dim_changes_file[OF Inr] by simp
  qed
qed

lemma getvarpnc_ref_fresh:
  assumes "getvarpnc_ref cls h r vks cks = Inr (w, h3, r3)"
  shows "r3 = length h \<and> r3 \<noteq> r \<and> length h3 = Suc (length h)
         \<and> getvarpnc cls (h ! r) vks cks = Inr (w, h3 ! r3)
         \<and> (\<forall>i < length h. h3 ! i = h ! i)"
proof -
  have r: "r < length h"
  proof (rule ccontr)
    assume "\<not> r < length h"
    then have "getvarpnc_ref cls h r vks cks = Inl Unmodelled" unfolding getvarpnc_ref_def by simp
    with assms show False by simp
  qed
  have e: "bind_res (getvarpnc cls (h ! r) vks cks)
             (\<lambda>(warnings, outf). Inr (warnings, h @ [outf], length h)) = Inr (w, h3, r3)"
    using assms r unfolding getvarpnc_ref_def by simp
  show ?thesis
  proof (cases "getvarpnc cls (h ! r) vks cks")
    case (Inl err)
    then show ?thesis using e by simp
  next
    case (Inr t)
    obtain w' outf where t: "t = (w', outf)" by (cases t) auto
    have "w' = w" "h3 = h @ [outf]" "r3 = length h" using e unfolding Inr t by auto
    then show ?thesis using r Inr t by (simp add: nth_append)
  qed
qed




subsection \<open>A fuzzy sibling of a fuzzy sibling\<close>

text \<open>
  Claim C6 at a file with the dimensions \<^verbatim>\<open>x\<close>, \<^verbatim>\<open>x1\<close> and \<^verbatim>\<open>x11\<close>, each of length 4 and
  each the axis of one variable with the values 0, 1, 2, 3. The fuzzy siblings of \<^verbatim>\<open>x\<close> are
  \<^verbatim>\<open>x1\<close> and \<^verbatim>\<open>x11\<close>, and \<^verbatim>\<open>x11\<close> is a fuzzy sibling of \<^verbatim>\<open>x1\<close> too. The call on a sibling
  is \<^verbatim>\<open>slice_dim(f, '%s,%s,%s,%s' % (dimk, dmin, dmax, dstride))\<close>, with fuzzy matching on
  by default, so \<^verbatim>\<open>slice_dim(f, 'x,1,3')\<close> slices \<^verbatim>\<open>x11\<close> in the call for \<^verbatim>\<open>x1\<close> and again in
  its own call: \<^verbatim>\<open>x\<close> and \<^verbatim>\<open>x1\<close> end with length 2 and the values 1, 2, and \<^verbatim>\<open>x11\<close> with
  length 1 and the value 2, where the slice 1:3 of \<^verbatim>\<open>x11\<close> alone has length 2 and the values
  1, 2. The history has the call for \<^verbatim>\<open>x11\<close> twice.
\<close>

theorem slice_dim_slices_nested_sibling_twice:
  "partial_check ex_shards ''x'' = [''x1'', ''x11'']
   \<and> partial_check ex_shards ''x1'' = [''x11'']
   \<and> map_sum id dim_lengths (slice_dim ex_cls ex_shards ''x,1,3'' True)
       = Inr [(''x'', 2), (''x1'', 2), (''x11'', 1)]
   \<and> map_sum id var_elems (slice_dim ex_cls ex_shards ''x,1,3'' True)
       = Inr [(''a'', [1, 2]), (''b'', [1, 2]), (''c'', [2])]
   \<and> map_sum id dim_lengths (slice_dim ex_cls ex_shards ''x11,1,3'' False)
       = Inr [(''x'', 4), (''x1'', 4), (''x11'', 2)]
   \<and> map_sum id var_elems (slice_dim ex_cls ex_shards ''x11,1,3'' False)
       = Inr [(''a'', [0, 1, 2, 3]), (''b'', [0, 1, 2, 3]), (''c'', [1, 2])]
   \<and> map_sum id (\<lambda>f. map_of (fdict f) ''history'') (slice_dim ex_cls ex_shards ''x,1,3'' True)
       = Inr (Some (PStr (''slice_dim(f, x11,1,3,None, fuzzydim = True); ''
                          @ ''slice_dim(f, x1,1,3,None, fuzzydim = True); ''
                          @ ''slice_dim(f, x11,1,3,None, fuzzydim = True); ''
                          @ ''slice_dim(f, x,1,3, fuzzydim = True); '')))"
  by code_simp

subsection \<open>\<^verbatim>\<open>getvarpnc\<close>\<close>

lemma mapM_entries:
  "list_all (\<lambda>k. k \<notin> set cls \<and> map_of (vdict var) k \<noteq> None) ns \<Longrightarrow>
   mapM (\<lambda>k. bind_res (getattr_var cls var k) (\<lambda>x. Inr (k, x))) ns = Inr (map (entry var) ns)"
proof (induction ns)
  case Nil
  then show ?case by simp
next
  case (Cons k ns)
  from Cons.prems obtain x where x: "map_of (vdict var) k = Some x" and k: "k \<notin> set cls" by auto
  have g: "getattr_var cls var k = Inr x" using x k by (simp add: getattr_var_def)
  have r: "mapM (\<lambda>k. bind_res (getattr_var cls var k) (\<lambda>x. Inr (k, x))) ns = Inr (map (entry var) ns)"
    using Cons.IH Cons.prems by simp
  show ?case using g r x by (simp add: entry_def)
qed

lemma setattr_var_present:
  assumes "k \<notin> set cls" "map_of (vdict r) k \<noteq> None"
  shows "setattr_var cls r k x = Inr (r\<lparr>vdict := AList.update k x (vdict r)\<rparr>)"
  using assms by (simp add: setattr_var_def hasattr_var_def ndarray_setattr_def)

lemma setattr_kwds:
  "list_all (\<lambda>kx. fst kx \<notin> set cls \<and> map_of (vdict r) (fst kx) \<noteq> None) kwds \<Longrightarrow>
   \<exists>r'. foldM (\<lambda>r (k, x). setattr_var cls r k x) r kwds = Inr r' \<and> vdata r' = vdata r
       \<and> (\<forall>k. map_of (vdict r') k
               = (case map_of (rev kwds) k of Some x \<Rightarrow> Some x | None \<Rightarrow> map_of (vdict r) k))"
proof (induction kwds arbitrary: r)
  case Nil
  then show ?case by simp
next
  case (Cons kx kwds)
  obtain k x where kx: "kx = (k, x)" by (cases kx)
  let ?r1 = "r\<lparr>vdict := AList.update k x (vdict r)\<rparr>"
  have s: "setattr_var cls r k x = Inr ?r1"
    using Cons.prems kx by (simp add: setattr_var_present)
  have "list_all (\<lambda>kx. fst kx \<notin> set cls \<and> map_of (vdict ?r1) (fst kx) \<noteq> None) kwds"
    using Cons.prems by (auto simp: list_all_iff update_conv')
  from Cons.IH[OF this] obtain r' where
    r': "foldM (\<lambda>r (k, x). setattr_var cls r k x) ?r1 kwds = Inr r'" "vdata r' = vdata ?r1"
    "\<forall>k'. map_of (vdict r') k'
               = (case map_of (rev kwds) k' of Some x \<Rightarrow> Some x | None \<Rightarrow> map_of (vdict ?r1) k')"
    by blast
  have f: "foldM (\<lambda>r (k, x). setattr_var cls r k x) r (kx # kwds) = Inr r'"
    using s r'(1) kx by simp
  have m: "\<forall>k'. map_of (vdict r') k'
               = (case map_of (rev (kx # kwds)) k' of Some x \<Rightarrow> Some x | None \<Rightarrow> map_of (vdict r) k')"
    using r'(3) kx by (auto simp: update_conv' map_add_def split: option.splits)
  show ?case using f r'(2) m by auto
qed

lemma map_of_rev_entries:
  "distinct ns \<Longrightarrow>
   map_of (rev (map (entry p) ns)) k = (if k \<in> set ns then Some (the (map_of (vdict p) k)) else None)"
proof (induction ns)
  case Nil
  then show ?case by simp
next
  case (Cons a ns)
  then show ?case by (auto simp: entry_def map_add_def split: option.splits)
qed

lemma PseudoNetCDFVariable_of_view_kwds:
  assumes "wf_var cls var"
  shows "PseudoNetCDFVariable cls pdims varkey c ds (Some (ObjVar (as_view var a))) kwds
         = foldM (\<lambda>r (k, x). setattr_var cls r k x) (rebuilt var a c ds) kwds"
proof -
  have e: "ellipsis_obj cls (ObjVar (as_view var a)) = Inr (ObjVar (as_view var a))"
    using assms by (simp add: ellipsis_obj_def ellipsis_var_def as_view_facts new_view_as_view)
  have d: "obj_data (ObjVar (as_view var a)) = Inr a"
    using assms by (simp add: obj_data_def as_view_facts)
  have n: "new_view cls a (ObjVar (as_view var a)) = Inr (as_view var a)"
    using assms by (rule new_view_as_view)
  have r: "(as_view var a)\<lparr>vdict := AList.update ''dimensions'' (PTuple ds)
               (AList.update ''typecode'' (PThunk c) (vdict (as_view var a)))\<rparr> = rebuilt var a c ds"
    by (simp add: rebuilt_def as_view_def)
  show ?thesis
    unfolding PseudoNetCDFVariable_def option.case bind_res_simps e d n Let_def r ..
qed

lemma copy_variable_ok:
  assumes wf: "wf_var cls var" and dd: "map_of (vdict var) ''dimensions'' = Some (PTuple ds)"
    and kw: "kw_free var"
  shows "\<exists>v'. copy_variable cls outf key var
                = Inr (outf\<lparr>variables := AList.update key v' (variables outf)\<rparr>)
            \<and> same_var cls var v'"
proof -
  from wf_var_ncattrs[OF wf] obtain ns where ns: "map_of (vdict var) ''_ncattrs'' = Some (PTuple ns)"
    by blast
  have cls: "''_ncattrs'' \<notin> set cls" "''dimensions'' \<notin> set cls"
    and dist: "distinct ns"
    and all: "list_all (\<lambda>k. user_name cls k \<and> map_of (vdict var) k \<noteq> None) ns"
    using wf ns by (auto simp: wf_var_def)
  have all': "list_all (\<lambda>k. k \<notin> set cls \<and> map_of (vdict var) k \<noteq> None) ns"
    using all by (auto simp: list_all_iff user_name_def)
  have us: "\<And>k. k \<in> set ns \<Longrightarrow> k \<noteq> ''_ncattrs'' \<and> k \<notin> set cls"
    using all by (auto simp: list_all_iff user_name_def)
  have kwf: "\<not> list_ex (\<lambda>k. k \<in> set [''self'', ''name'', ''type'', ''dimensions'', ''values'']) ns"
    using kw ns by (auto simp: kw_free_def list_all_iff list_ex_iff)
  have nd: "''dimensions'' \<notin> set ns"
    using kw ns by (auto simp: kw_free_def list_all_iff)
  have nc: "ncattrs_var cls var = Inr (PTuple ns)"
    using ns cls by (simp add: ncattrs_var_def getattr_var_def)
  have mp: "mapM (\<lambda>k. bind_res (getattr_var cls var k) (\<lambda>x. Inr (k, x))) ns = Inr (map (entry var) ns)"
    by (rule mapM_entries[OF all'])
  have gd: "getattr_var cls var ''dimensions'' = Inr (PTuple ds)"
    using dd cls by (simp add: getattr_var_def)
  let ?a = "vdata var"
  let ?c = "dtype_char (vdata var)"
  have el: "ellipsis_var cls var = Inr (as_view var ?a)"
    unfolding ellipsis_var_def by (rule new_view_view_dict[OF wf])
  let ?R = "rebuilt var ?a ?c ds"
  have vd: "view_dict var = (''_ncattrs'', PTuple ns) # map (entry var) (view_names ns)"
    using ns by (simp add: view_dict_def)
  have Rl: "\<And>k. k \<noteq> ''dimensions'' \<Longrightarrow> k \<noteq> ''typecode'' \<Longrightarrow>
              map_of (vdict ?R) k = map_of (view_dict var) k"
    by (simp add: rebuilt_def update_conv')
  have Rnc: "map_of (vdict ?R) ''_ncattrs'' = Some (PTuple ns)"
    using vd by (simp add: rebuilt_def update_conv')
  have Rd: "map_of (vdict ?R) ''dimensions'' = Some (PTuple ds)"
    by (simp add: rebuilt_def update_conv')
  have present: "\<And>k. k \<in> set ns \<Longrightarrow> map_of (vdict ?R) k \<noteq> None"
  proof -
    fix k assume k: "k \<in> set ns"
    have kv: "k \<in> set (view_names ns)" using k by (simp add: view_names_def)
    have "map_of (view_dict var) k \<noteq> None"
      using us[OF k] map_of_entries[OF kv, of var] vd by simp
    then show "map_of (vdict ?R) k \<noteq> None"
      by (simp add: rebuilt_def update_conv')
  qed
  have pre: "list_all (\<lambda>kx. fst kx \<notin> set cls \<and> map_of (vdict ?R) (fst kx) \<noteq> None)
               (map (entry var) ns)"
    using us present by (auto simp: list_all_iff entry_def)
  from setattr_kwds[OF pre] obtain v' where
    v': "foldM (\<lambda>r (k, x). setattr_var cls r k x) ?R (map (entry var) ns) = Inr v'"
    and vda: "vdata v' = vdata ?R"
    and look: "\<forall>k. map_of (vdict v') k
               = (case map_of (rev (map (entry var) ns)) k of Some x \<Rightarrow> Some x
                  | None \<Rightarrow> map_of (vdict ?R) k)"
    by blast
  have lk_in: "\<And>k. k \<in> set ns \<Longrightarrow> map_of (vdict v') k = map_of (vdict var) k"
  proof -
    fix k assume k: "k \<in> set ns"
    have "map_of (vdict var) k \<noteq> None" using all k by (auto simp: list_all_iff)
    then show "map_of (vdict v') k = map_of (vdict var) k"
      using look k map_of_rev_entries[OF dist, of var k] by auto
  qed
  have lk_out: "\<And>k. k \<notin> set ns \<Longrightarrow> map_of (vdict v') k = map_of (vdict ?R) k"
    using look map_of_rev_entries[OF dist, of var] by simp
  have nn: "''_ncattrs'' \<notin> set ns" using us by blast
  have v_nc: "map_of (vdict v') ''_ncattrs'' = Some (PTuple ns)"
    using lk_out[OF nn] Rnc by simp
  have v_d: "map_of (vdict v') ''dimensions'' = Some (PTuple ds)"
    using lk_out[OF nd] Rd by simp
  have ua: "user_attrs cls v' = user_attrs cls var"
  proof -
    have "map (\<lambda>k. (k, getattr_var cls v' k)) ns = map (\<lambda>k. (k, getattr_var cls var k)) ns"
      using lk_in by (auto simp: getattr_var_def)
    then show ?thesis
      using v_nc ns cls by (simp add: user_attrs_def ncattrs_var_def getattr_var_def)
  qed
  have sv: "same_var cls var v'"
    using ua vda v_d dd cls by (simp add: same_var_def getattr_var_def rebuilt_def)
  have pv: "PseudoNetCDFVariable cls (dimensions outf) key ?c ds (Some (ObjVar (as_view var ?a)))
              (map (entry var) ns) = Inr v'"
    unfolding PseudoNetCDFVariable_of_view_kwds[OF wf] by (rule v')
  have "copy_variable cls outf key var
          = Inr (outf\<lparr>variables := AList.update key v' (variables outf)\<rparr>)"
    unfolding copy_variable_def nc bind_res_simps pyval.case mp gd el
    using kwf by (simp add: createVariable_def pv)
  then show ?thesis using sv by blast
qed

lemma foldM_prefix_inv:
  "I ps s \<Longrightarrow>
   (\<And>ps x s. I ps s \<Longrightarrow> x \<in> set xs \<Longrightarrow> \<exists>s'. g s x = Inr s' \<and> I (ps @ [x]) s') \<Longrightarrow>
   \<exists>s'. foldM g s xs = Inr s' \<and> I (ps @ xs) s'"
proof (induction xs arbitrary: ps s)
  case Nil
  then show ?case by simp
next
  case (Cons x xs)
  from Cons.prems(2)[OF Cons.prems(1), of x] obtain s1 where
    s1: "g s x = Inr s1" "I (ps @ [x]) s1" by auto
  have step: "\<And>ps y s. I ps s \<Longrightarrow> y \<in> set xs \<Longrightarrow> \<exists>s'. g s y = Inr s' \<and> I (ps @ [y]) s'"
  proof -
    fix ps y s assume "I ps s" "y \<in> set xs"
    then show "\<exists>s'. g s y = Inr s' \<and> I (ps @ [y]) s'" using Cons.prems(2)[of ps s y] by simp
  qed
  from Cons.IH[OF s1(2) step] obtain s' where
    "foldM g s1 xs = Inr s'" "I ((ps @ [x]) @ xs) s'" by blast
  then show ?case using s1(1) by simp
qed

lemma set_fold_set_add: "set (fold set_add xs ys) = set xs \<union> set ys"
  by (induction xs arbitrary: ys) (auto simp: set_add_def)

lemma set_coord_keys_snoc:
  "set (coord_keys f (Dn @ [d]))
     = set (coord_keys f Dn) \<union> (if d = ''nv'' then {} else insert d (set (coord_bounds f d)))"
  by (auto simp: coord_keys_def)

lemma set_coord_keys_mono:
  "set Dn \<subseteq> set Dn' \<Longrightarrow> set (coord_keys f Dn) \<subseteq> set (coord_keys f Dn')"
  by (auto simp: coord_keys_def)

lemma set_coord_keys_cong:
  "set Dn = set Dn' \<Longrightarrow> set (coord_keys f Dn) = set (coord_keys f Dn')"
  by (auto simp: coord_keys_def)

lemma same_dimension:
  "(if isunlimited fd then setunlimited (PseudoNetCDFDimension (d_len fd)) True
    else PseudoNetCDFDimension (d_len fd)) = fd"
  by (simp add: isunlimited_def setunlimited_def PseudoNetCDFDimension_def)

lemma add_var_dim_step:
  assumes bc: "''bounds'' \<notin> set cls" and fd: "map_of (dimensions f) dimk = Some fd"
  shows "add_var_dim cls f (outf, ck) (dimk, d_len fd)
     = Inr (if map_of (dimensions outf) dimk = None
            then (outf\<lparr>dimensions := AList.update dimk fd (dimensions outf)\<rparr>,
                  fold set_add (coord_bounds f dimk) (set_add dimk ck))
            else (outf, ck))"
proof (cases "map_of (dimensions outf) dimk")
  case (Some a)
  then show ?thesis by (simp add: add_var_dim_def)
next
  case None
  show ?thesis
  proof (cases "map_of (variables f) dimk")
    case N: None
    then show ?thesis using None fd
      by (simp add: add_var_dim_def Let_def same_dimension coord_bounds_def)
  next
    case (Some tv)
    show ?thesis
    proof (cases "map_of (vdict tv) ''bounds''")
      case N: None
      then show ?thesis using None fd Some bc
        by (simp add: add_var_dim_def Let_def same_dimension coord_bounds_def hasattr_var_def)
    next
      case S: (Some b)
      have g: "getattr_var cls tv ''bounds'' = Inr b" using S bc by (simp add: getattr_var_def)
      have h: "hasattr_var cls tv ''bounds''" using S by (simp add: hasattr_var_def)
      show ?thesis using None fd Some S g h
        by (cases b) (simp_all add: add_var_dim_def Let_def same_dimension coord_bounds_def)
    qed
  qed
qed

lemma dims_inv_step:
  assumes inv: "dims_inv f outf ck Dn" and fd: "map_of (dimensions f) dimk = Some fd"
  shows "dims_inv f
           (if map_of (dimensions outf) dimk = None
            then outf\<lparr>dimensions := AList.update dimk fd (dimensions outf)\<rparr> else outf)
           (if map_of (dimensions outf) dimk = None
            then fold set_add (coord_bounds f dimk) (set_add dimk ck) else ck)
           (Dn @ [dimk])"
proof (cases "map_of (dimensions outf) dimk")
  case None
  then have nk: "dimk \<notin> fst ` set (dimensions outf)" by (simp add: map_of_eq_None_iff)
  then have nnv: "dimk \<noteq> ''nv''" and nD: "dimk \<notin> set Dn" using inv by (auto simp: dims_inv_def)
  have sa: "set (set_add dimk ck) = insert dimk (set ck)" by (auto simp: set_add_def)
  have keys: "fst ` set (AList.update dimk fd (dimensions outf))
                = insert dimk (fst ` set (dimensions outf))"
    by (simp add: dom_update)
  have a: "fst ` set (AList.update dimk fd (dimensions outf)) = insert ''nv'' (set (Dn @ [dimk]))"
    using inv unfolding keys dims_inv_def by auto
  have b: "map_of (AList.update dimk fd (dimensions outf)) ''nv'' = Some (PseudoNetCDFDimension 2)"
    using inv nnv by (simp add: dims_inv_def update_conv')
  have c: "\<forall>d \<in> set (Dn @ [dimk]). d \<noteq> ''nv'' \<longrightarrow>
             map_of (AList.update dimk fd (dimensions outf)) d = map_of (dimensions f) d"
    using inv fd by (auto simp: dims_inv_def update_conv')
  have d: "set (fold set_add (coord_bounds f dimk) (set_add dimk ck))
             = set (coord_keys f (Dn @ [dimk]))"
    using inv nnv unfolding set_fold_set_add sa set_coord_keys_snoc dims_inv_def by auto
  show ?thesis using None a b c d by (simp add: dims_inv_def)
next
  case (Some a)
  then have "dimk \<in> fst ` set (dimensions outf)" by (metis map_of_eq_None_iff option.distinct(1))
  then have c: "dimk = ''nv'' \<or> dimk \<in> set Dn" using inv by (auto simp: dims_inv_def)
  have k: "set (coord_keys f (Dn @ [dimk])) = set (coord_keys f Dn)"
    using c by (auto simp: coord_keys_def)
  show ?thesis using inv Some c k unfolding dims_inv_def by auto
qed

lemma add_var_dims_loop:
  assumes bc: "''bounds'' \<notin> set cls"
  shows "dims_inv f outf ck Dn \<Longrightarrow>
     list_all (\<lambda>d. map_of (dimensions f) d \<noteq> None) ds \<Longrightarrow>
     \<exists>outf' ck'. foldM (add_var_dim cls f) (outf, ck)
                    (map (\<lambda>d. (d, d_len (the (map_of (dimensions f) d)))) ds) = Inr (outf', ck')
       \<and> dims_inv f outf' ck' (Dn @ ds) \<and> variables outf' = variables outf
       \<and> f_ncattrs outf' = f_ncattrs outf \<and> fdict outf' = fdict outf"
proof (induction ds arbitrary: outf ck Dn)
  case Nil
  then show ?case by simp
next
  case (Cons d ds)
  from Cons.prems(2) obtain fd where fd: "map_of (dimensions f) d = Some fd" by auto
  let ?o1 = "if map_of (dimensions outf) d = None
            then outf\<lparr>dimensions := AList.update d fd (dimensions outf)\<rparr> else outf"
  let ?c1 = "if map_of (dimensions outf) d = None
            then fold set_add (coord_bounds f d) (set_add d ck) else ck"
  have st: "add_var_dim cls f (outf, ck) (d, d_len (the (map_of (dimensions f) d))) = Inr (?o1, ?c1)"
    using add_var_dim_step[OF bc fd, of outf ck] fd by simp
  have i1: "dims_inv f ?o1 ?c1 (Dn @ [d])" by (rule dims_inv_step[OF Cons.prems(1) fd])
  have rest: "list_all (\<lambda>d. map_of (dimensions f) d \<noteq> None) ds" using Cons.prems(2) by simp
  from Cons.IH[OF i1 rest] obtain outf' ck' where
    r: "foldM (add_var_dim cls f) (?o1, ?c1)
          (map (\<lambda>d. (d, d_len (the (map_of (dimensions f) d)))) ds) = Inr (outf', ck')"
    "dims_inv f outf' ck' ((Dn @ [d]) @ ds)" "variables outf' = variables ?o1"
    "f_ncattrs outf' = f_ncattrs ?o1" "fdict outf' = fdict ?o1"
    by blast
  have "foldM (add_var_dim cls f) (outf, ck)
          (map (\<lambda>d. (d, d_len (the (map_of (dimensions f) d)))) (d # ds)) = Inr (outf', ck')"
    using st r(1) by simp
  moreover have "variables outf' = variables outf" "f_ncattrs outf' = f_ncattrs outf"
    "fdict outf' = fdict outf" using r(3,4,5) by auto
  ultimately show ?case using r(2) by auto
qed

lemma add_coord_dims_skip:
  "(\<And>c. c \<in> set ck \<Longrightarrow> map_of (dimensions f) c = None \<or> map_of (dimensions outf) c \<noteq> None) \<Longrightarrow>
   fold (\<lambda>coordk ou. add_coord_dim f ou coordk) ck outf = outf"
proof (induction ck)
  case Nil
  then show ?case by simp
next
  case (Cons c ck)
  have "add_coord_dim f outf c = outf"
    using Cons.prems[of c] by (auto simp: add_coord_dim_def split: option.splits)
  then show ?case using Cons by simp
qed

lemma zip_dims_shape:
  assumes "shape_matches f v"
  shows "zip (var_dims v) (shape (vdata v))
           = map (\<lambda>d. (d, d_len (the (map_of (dimensions f) d)))) (var_dims v)"
    and "list_all (\<lambda>d. map_of (dimensions f) d \<noteq> None) (var_dims v)"
proof -
  have e: "map (\<lambda>d. map_option d_len (map_of (dimensions f) d)) (var_dims v)
             = map Some (shape (vdata v))"
    using assms by (simp add: shape_matches_def)
  then have l: "length (var_dims v) = length (shape (vdata v))"
    by (metis length_map)
  have n: "\<And>i. i < length (var_dims v) \<Longrightarrow>
             map_option d_len (map_of (dimensions f) (var_dims v ! i)) = Some (shape (vdata v) ! i)"
  proof -
    fix i assume i: "i < length (var_dims v)"
    have "map (\<lambda>d. map_option d_len (map_of (dimensions f) d)) (var_dims v) ! i
             = map Some (shape (vdata v)) ! i" using e by simp
    then show "map_option d_len (map_of (dimensions f) (var_dims v ! i)) = Some (shape (vdata v) ! i)"
      using i l by simp
  qed
  show "zip (var_dims v) (shape (vdata v))
           = map (\<lambda>d. (d, d_len (the (map_of (dimensions f) d)))) (var_dims v)"
  proof (rule nth_equalityI)
    show "length (zip (var_dims v) (shape (vdata v)))
            = length (map (\<lambda>d. (d, d_len (the (map_of (dimensions f) d)))) (var_dims v))"
      using l by simp
  next
    fix i assume "i < length (zip (var_dims v) (shape (vdata v)))"
    then have i: "i < length (var_dims v)" by simp
    from n[OF i] show "zip (var_dims v) (shape (vdata v)) ! i
            = map (\<lambda>d. (d, d_len (the (map_of (dimensions f) d)))) (var_dims v) ! i"
      using i l by (cases "map_of (dimensions f) (var_dims v ! i)") auto
  qed
  show "list_all (\<lambda>d. map_of (dimensions f) d \<noteq> None) (var_dims v)"
    unfolding list_all_length using n by fastforce
qed

lemma add_variable_step:
  assumes bc: "''bounds'' \<notin> set cls"
    and lk: "map_of (variables f) varkey = Some var" and ok: "var_ok cls f var"
    and kw: "kw_free var"
    and inv: "dims_inv f outf ck Dn"
    and nb: "\<And>b. b \<in> set (concat (map (coord_bounds f) (filter (\<lambda>d. d \<noteq> ''nv'') (Dn @ var_dims var))))
                \<Longrightarrow> map_of (dimensions f) b = None"
  shows "\<exists>outf' ck' v'. add_variable cls f (outf, ck) varkey = Inr (outf', ck')
       \<and> dims_inv f outf' ck' (Dn @ var_dims var)
       \<and> variables outf' = AList.update varkey v' (variables outf) \<and> same_var cls var v'
       \<and> f_ncattrs outf' = f_ncattrs outf \<and> fdict outf' = fdict outf"
proof -
  have wf: "wf_var cls var" and sm: "shape_matches f var" using ok by (auto simp: var_ok_def)
  obtain ds where dd: "map_of (vdict var) ''dimensions'' = Some (PTuple ds)"
    using ok by (auto simp: var_ok_def split: option.splits pyval.splits)
  have vd: "getattr_var cls var ''dimensions'' = Inr (PTuple ds)" "var_dims var = ds"
    using var_dims_getattr[OF wf dd] by auto
  note z = zip_dims_shape[OF sm, unfolded vd(2)]
  from add_var_dims_loop[OF bc inv z(2)] obtain outf1 ck1 where
    l: "foldM (add_var_dim cls f) (outf, ck)
          (map (\<lambda>d. (d, d_len (the (map_of (dimensions f) d)))) ds) = Inr (outf1, ck1)"
    and i1: "dims_inv f outf1 ck1 (Dn @ ds)" and v1: "variables outf1 = variables outf"
    and a1: "f_ncattrs outf1 = f_ncattrs outf" "fdict outf1 = fdict outf"
    by blast
  have skip: "fold (\<lambda>coordk ou. add_coord_dim f ou coordk) ck1 outf1 = outf1"
  proof (rule add_coord_dims_skip)
    fix c assume c: "c \<in> set ck1"
    then have "c \<in> set (coord_keys f (Dn @ ds))" using i1 by (simp add: dims_inv_def)
    then consider (d) "c \<in> set (Dn @ ds)"
      | (b) "c \<in> set (concat (map (coord_bounds f) (filter (\<lambda>d. d \<noteq> ''nv'') (Dn @ ds))))"
      by (auto simp: coord_keys_def)
    then show "map_of (dimensions f) c = None \<or> map_of (dimensions outf1) c \<noteq> None"
    proof cases
      case d
      then have "c \<in> fst ` set (dimensions outf1)" using i1 by (auto simp: dims_inv_def)
      then show ?thesis by (simp add: map_of_eq_None_iff)
    next
      case b
      then show ?thesis using nb[of c] vd(2) by simp
    qed
  qed
  from copy_variable_ok[OF wf dd kw, of outf1 varkey] obtain v' where
    cp: "copy_variable cls outf1 varkey var
           = Inr (outf1\<lparr>variables := AList.update varkey v' (variables outf1)\<rparr>)"
    and sv: "same_var cls var v'" by blast
  let ?o = "outf1\<lparr>variables := AList.update varkey v' (variables outf1)\<rparr>"
  have av: "add_variable cls f (outf, ck) varkey = Inr (?o, ck1)"
    unfolding add_variable_def prod.case lk option.case vd(1) bind_res_simps pyval.case
      z(1)[symmetric]
    using l[unfolded z(1)[symmetric]] skip cp vd(2) by (simp add: Let_def)
  have io: "dims_inv f ?o ck1 (Dn @ var_dims var)" using i1 vd(2) by (simp add: dims_inv_def)
  show ?thesis using av io v1 sv a1 by auto
qed

lemma copies_of_update:
  assumes "copies_of cls f outf" "map_of (variables f) k = Some v" "same_var cls v v'"
  shows "copies_of cls f (outf\<lparr>variables := AList.update k v' (variables outf)\<rparr>)"
proof -
  have "\<And>xs. list_all (\<lambda>kv. case map_of (variables f) (fst kv) of
                       None \<Rightarrow> False | Some v \<Rightarrow> same_var cls v (snd kv)) xs \<Longrightarrow>
        list_all (\<lambda>kv. case map_of (variables f) (fst kv) of
                       None \<Rightarrow> False | Some v \<Rightarrow> same_var cls v (snd kv)) (AList.update k v' xs)"
  proof -
    fix xs :: "(string \<times> 'a var) list"
    show "list_all (\<lambda>kv. case map_of (variables f) (fst kv) of
                       None \<Rightarrow> False | Some v \<Rightarrow> same_var cls v (snd kv)) xs \<Longrightarrow>
        list_all (\<lambda>kv. case map_of (variables f) (fst kv) of
                       None \<Rightarrow> False | Some v \<Rightarrow> same_var cls v (snd kv)) (AList.update k v' xs)"
      using assms(2,3) by (induction xs) auto
  qed
  then show ?thesis using assms(1) by (simp add: copies_of_def)
qed

lemma req_dims_snoc:
  "map_of (variables f) k = Some v \<Longrightarrow> req_dims f (ps @ [k]) = req_dims f ps @ var_dims v"
  by (simp add: req_dims_def)

lemma set_req_dims:
  "set (req_dims f ks) = (\<Union>k \<in> set ks. case map_of (variables f) k of
                                           Some v \<Rightarrow> set (var_dims v) | None \<Rightarrow> {})"
proof (induction ks)
  case Nil
  then show ?case by (simp add: req_dims_def)
next
  case (Cons k ks)
  have "req_dims f (k # ks)
          = (case map_of (variables f) k of Some v \<Rightarrow> var_dims v | None \<Rightarrow> []) @ req_dims f ks"
    by (simp add: req_dims_def)
  then show ?case using Cons by (cases "map_of (variables f) k") auto
qed

lemma set_req_dims_cong: "set ks = set ks' \<Longrightarrow> set (req_dims f ks) = set (req_dims f ks')"
  by (simp add: set_req_dims)

lemma set_req_dims_mono: "set ks \<subseteq> set ks' \<Longrightarrow> set (req_dims f ks) \<subseteq> set (req_dims f ks')"
  unfolding set_req_dims by blast

lemma coord_bounds_in:
  "b \<in> set (concat (map (coord_bounds f) (filter (\<lambda>d. d \<noteq> ''nv'') ds)))
     \<longleftrightarrow> (\<exists>d \<in> set ds. d \<noteq> ''nv'' \<and> b \<in> set (coord_bounds f d))"
  by auto

lemma add_variables_loop:
  fixes f :: "('a::zero) pfile"
  assumes bc: "''bounds'' \<notin> set cls"
    and ok: "file_ok cls f" and kw: "list_all (\<lambda>kv. kw_free (snd kv)) (variables f)"
    and vs: "set V \<subseteq> fst ` set (variables f)"
    and nb: "\<And>b. b \<in> set (concat (map (coord_bounds f) (filter (\<lambda>d. d \<noteq> ''nv'') (req_dims f V))))
                \<Longrightarrow> map_of (dimensions f) b = None"
    and inv0: "dims_inv f outf0 [] []" and v0: "variables outf0 = []"
  shows "\<exists>outf ck. foldM (add_variable cls f) (outf0, []) V = Inr (outf, ck)
       \<and> dims_inv f outf ck (req_dims f V) \<and> fst ` set (variables outf) = set V
       \<and> copies_of cls f outf
       \<and> f_ncattrs outf = f_ncattrs outf0 \<and> fdict outf = fdict outf0"
proof -
  let ?I = "\<lambda>ps (st :: 'a pfile \<times> string list).
       dims_inv f (fst st) (snd st) (req_dims f ps) \<and> fst ` set (variables (fst st)) = set ps
       \<and> copies_of cls f (fst st) \<and> set ps \<subseteq> set V
       \<and> f_ncattrs (fst st) = f_ncattrs outf0 \<and> fdict (fst st) = fdict outf0"
  have i0: "?I [] (outf0, [])" using inv0 v0 by (simp add: req_dims_def copies_of_def)
  have step: "\<And>ps x st. ?I ps st \<Longrightarrow> x \<in> set V \<Longrightarrow>
                 \<exists>st'. add_variable cls f st x = Inr st' \<and> ?I (ps @ [x]) st'"
  proof -
    fix ps x and st :: "'a pfile \<times> string list"
    assume i: "?I ps st" and x: "x \<in> set V"
    obtain outf ck where st: "st = (outf, ck)" by (cases st)
    from x vs obtain var where lk: "map_of (variables f) x = Some var"
      by (metis map_of_eq_None_iff option.exhaust subsetD)
    then have mem: "(x, var) \<in> set (variables f)" by (rule map_of_SomeD)
    have vok: "var_ok cls f var" using ok mem by (auto simp: file_ok_def list_all_iff)
    have vkw: "kw_free var" using kw mem by (auto simp: list_all_iff)
    have rd: "req_dims f (ps @ [x]) = req_dims f ps @ var_dims var" by (rule req_dims_snoc[OF lk])
    have sub: "set (req_dims f (ps @ [x])) \<subseteq> set (req_dims f V)"
      using i x by (intro set_req_dims_mono) auto
    have nb': "\<And>b. b \<in> set (concat (map (coord_bounds f)
                       (filter (\<lambda>d. d \<noteq> ''nv'') (req_dims f ps @ var_dims var))))
                \<Longrightarrow> map_of (dimensions f) b = None"
    proof -
      fix b assume "b \<in> set (concat (map (coord_bounds f)
                       (filter (\<lambda>d. d \<noteq> ''nv'') (req_dims f ps @ var_dims var))))"
      then have "\<exists>d \<in> set (req_dims f (ps @ [x])). d \<noteq> ''nv'' \<and> b \<in> set (coord_bounds f d)"
        unfolding rd coord_bounds_in .
      then have "\<exists>d \<in> set (req_dims f V). d \<noteq> ''nv'' \<and> b \<in> set (coord_bounds f d)"
        using sub by blast
      then show "map_of (dimensions f) b = None" using nb[of b] unfolding coord_bounds_in by blast
    qed
    have di: "dims_inv f outf ck (req_dims f ps)" using i st by simp
    from add_variable_step[OF bc lk vok vkw di nb'] obtain outf' ck' v' where
      r: "add_variable cls f (outf, ck) x = Inr (outf', ck')"
      "dims_inv f outf' ck' (req_dims f ps @ var_dims var)"
      "variables outf' = AList.update x v' (variables outf)" "same_var cls var v'"
      "f_ncattrs outf' = f_ncattrs outf" "fdict outf' = fdict outf"
      by blast
    have ks: "fst ` set (variables outf') = set (ps @ [x])"
      using r(3) i st by (simp add: dom_update)
    have co: "copies_of cls f outf'"
    proof -
      have "copies_of cls f (outf\<lparr>variables := AList.update x v' (variables outf)\<rparr>)"
        using copies_of_update[OF _ lk r(4)] i st by simp
      then show ?thesis using r(3) by (simp add: copies_of_def)
    qed
    have "?I (ps @ [x]) (outf', ck')"
      using r(2,5,6) ks co i st x unfolding rd by simp
    then show "\<exists>st'. add_variable cls f st x = Inr st' \<and> ?I (ps @ [x]) st'"
      using r(1) st by blast
  qed
  from foldM_prefix_inv[where I = ?I and g = "add_variable cls f" and xs = V, OF i0 step]
  obtain st' where r: "foldM (add_variable cls f) (outf0, []) V = Inr st'" "?I ([] @ V) st'"
    by blast
  obtain outf ck where st': "st' = (outf, ck)" by (cases st')
  show ?thesis using r st' by auto
qed

lemma add_coord_variables_loop:
  fixes f :: "('a::zero) pfile"
  assumes ok: "file_ok cls f" and kw: "list_all (\<lambda>kv. kw_free (snd kv)) (variables f)"
    and c0: "copies_of cls f outf0"
  shows "\<exists>outf. foldM (add_coord_variable cls f) outf0 ck = Inr outf
       \<and> dimensions outf = dimensions outf0
       \<and> fst ` set (variables outf)
           = fst ` set (variables outf0) \<union> {k \<in> set ck. k \<in> fst ` set (variables f)}
       \<and> copies_of cls f outf
       \<and> f_ncattrs outf = f_ncattrs outf0 \<and> fdict outf = fdict outf0"
proof -
  let ?I = "\<lambda>ps (outf :: 'a pfile).
       dimensions outf = dimensions outf0
       \<and> fst ` set (variables outf)
           = fst ` set (variables outf0) \<union> {k \<in> set ps. k \<in> fst ` set (variables f)}
       \<and> copies_of cls f outf
       \<and> f_ncattrs outf = f_ncattrs outf0 \<and> fdict outf = fdict outf0"
  have i0: "?I [] outf0" using c0 by simp
  have step: "\<And>ps x outf. ?I ps outf \<Longrightarrow> x \<in> set ck \<Longrightarrow>
                 \<exists>outf'. add_coord_variable cls f outf x = Inr outf' \<and> ?I (ps @ [x]) outf'"
  proof -
    fix ps x and outf :: "'a pfile"
    assume i: "?I ps outf" and x: "x \<in> set ck"
    show "\<exists>outf'. add_coord_variable cls f outf x = Inr outf' \<and> ?I (ps @ [x]) outf'"
    proof (cases "map_of (variables f) x")
      case None
      then have nk: "x \<notin> fst ` set (variables f)" by (simp add: map_of_eq_None_iff)
      have "add_coord_variable cls f outf x = Inr outf" using None by (simp add: add_coord_variable_def)
      moreover have "?I (ps @ [x]) outf" using i nk by auto
      ultimately show ?thesis by blast
    next
      case (Some var)
      then have mem: "(x, var) \<in> set (variables f)" by (rule map_of_SomeD)
      then have xk: "x \<in> fst ` set (variables f)" by force
      have vok: "var_ok cls f var" using ok mem by (auto simp: file_ok_def list_all_iff)
      have vkw: "kw_free var" using kw mem by (auto simp: list_all_iff)
      have wf: "wf_var cls var" using vok by (simp add: var_ok_def)
      obtain ds where dd: "map_of (vdict var) ''dimensions'' = Some (PTuple ds)"
        using vok by (auto simp: var_ok_def split: option.splits pyval.splits)
      from copy_variable_ok[OF wf dd vkw, of outf x] obtain v' where
        cp: "copy_variable cls outf x var
               = Inr (outf\<lparr>variables := AList.update x v' (variables outf)\<rparr>)"
        and sv: "same_var cls var v'" by blast
      let ?o = "outf\<lparr>variables := AList.update x v' (variables outf)\<rparr>"
      have a: "add_coord_variable cls f outf x = Inr ?o"
        using Some cp by (simp add: add_coord_variable_def)
      have co: "copies_of cls f ?o" using copies_of_update[OF _ Some sv] i by simp
      have ks: "fst ` set (variables ?o)
           = fst ` set (variables outf0) \<union> {k \<in> set (ps @ [x]). k \<in> fst ` set (variables f)}"
        using i xk by (auto simp: dom_update)
      have "?I (ps @ [x]) ?o" using i co ks by simp
      then show ?thesis using a by blast
    qed
  qed
  from foldM_prefix_inv[where I = ?I and g = "add_coord_variable cls f" and xs = ck, OF i0 step]
  show ?thesis by simp
qed

lemma copy_attrs_loop:
  fixes f outf0 :: "'a pfile"
  assumes at: "attrs_ok f"
  shows "\<exists>outf. foldM (\<lambda>ou propkey.
               bind_res (getattr_file f propkey) (\<lambda>x. setattr_file ou propkey (FVal x)))
             (outf0\<lparr>f_ncattrs := [], fdict := []\<rparr>) (ncattrs f) = Inr outf
       \<and> dimensions outf = dimensions outf0 \<and> variables outf = variables outf0
       \<and> f_ncattrs outf = ncattrs f
       \<and> (\<forall>k. map_of (fdict outf) k = (if k \<in> set (ncattrs f) then map_of (fdict f) k else None))"
proof -
  let ?g = "\<lambda>ou propkey. bind_res (getattr_file f propkey) (\<lambda>x. setattr_file ou propkey (FVal x))"
  let ?I = "\<lambda>ps (outf :: 'a pfile).
       dimensions outf = dimensions outf0 \<and> variables outf = variables outf0
       \<and> f_ncattrs outf = ps
       \<and> (\<forall>k. map_of (fdict outf) k = (if k \<in> set ps then map_of (fdict f) k else None))"
  have i0: "?I [] (outf0\<lparr>f_ncattrs := [], fdict := []\<rparr>)" by simp
  have step: "\<And>ps x outf. ?I ps outf \<Longrightarrow> x \<in> set (ncattrs f) \<Longrightarrow>
                 \<exists>outf'. ?g outf x = Inr outf' \<and> ?I (ps @ [x]) outf'"
  proof -
    fix ps x and outf :: "'a pfile"
    assume i: "?I ps outf" and x: "x \<in> set (ncattrs f)"
    from at x obtain y where y: "map_of (fdict f) x = Some y"
      and u: "take 1 x \<noteq> ''_''" and r: "x \<notin> set [''dimensions'', ''variables'', ''groups'']"
      by (auto simp: attrs_ok_def ncattrs_def list_all_iff)
    have n: "x \<noteq> ''_ncattrs''" using u by auto
    have g: "getattr_file f x = Inr y" using y r n by (simp add: getattr_file_def)
    let ?o = "outf\<lparr>f_ncattrs := f_ncattrs outf @ [x], fdict := AList.update x y (fdict outf)\<rparr>"
    have s: "setattr_file outf x (FVal y) = Inr ?o"
      using u r n by (simp add: setattr_file_def object_setattr_def)
    have "?I (ps @ [x]) ?o" using i y by (auto simp: update_conv')
    then show "\<exists>outf'. ?g outf x = Inr outf' \<and> ?I (ps @ [x]) outf'" using g s by simp
  qed
  from foldM_prefix_inv[where I = ?I and g = ?g and xs = "ncattrs f", OF i0 step]
  show ?thesis by simp
qed

lemma sort_remdups_eq_sort:
  fixes xs :: "('k::linorder) list"
  shows "sort (remdups (filter P xs)) = sort xs \<longleftrightarrow> distinct xs \<and> filter (\<lambda>k. \<not> P k) xs = []"
proof
  assume e: "sort (remdups (filter P xs)) = sort xs"
  then have "length (sort (remdups (filter P xs))) = length (sort xs)" by simp
  then have l: "length (remdups (filter P xs)) = length xs" by simp
  have a: "length (remdups (filter P xs)) \<le> length (filter P xs)" by (rule length_remdups_leq)
  have b: "length (filter P xs) \<le> length xs" by (rule length_filter_le)
  from l a b have l1: "length (filter P xs) = length xs"
    and l2: "length (remdups (filter P xs)) = length (filter P xs)" by auto
  from l1 have all: "\<forall>x \<in> set xs. P x" by (metis filter_id_conv length_filter_less less_irrefl_nat)
  then have fx: "filter P xs = xs" by (simp add: filter_id_conv)
  from l2 have "distinct (filter P xs)" by (metis distinct_remdups length_remdups_eq)
  then have "distinct xs" using fx by simp
  moreover have "filter (\<lambda>k. \<not> P k) xs = []" using all by (simp add: filter_empty_conv)
  ultimately show "distinct xs \<and> filter (\<lambda>k. \<not> P k) xs = []" by simp
next
  assume a: "distinct xs \<and> filter (\<lambda>k. \<not> P k) xs = []"
  then have "\<forall>x \<in> set xs. P x" by (simp add: filter_empty_conv)
  then have "filter P xs = xs" by (simp add: filter_id_conv)
  then show "sort (remdups (filter P xs)) = sort xs" using a by (simp add: distinct_remdups_id)
qed

lemma sort_remdups_filter_sort:
  fixes xs :: "('k::linorder) list"
  shows "sort (remdups (filter P (sort xs))) = sort (remdups (filter P xs))"
proof (rule sorted_distinct_set_unique)
  show "sorted (sort (remdups (filter P (sort xs))))" by simp
  show "sorted (sort (remdups (filter P xs)))" by simp
  show "distinct (sort (remdups (filter P (sort xs))))" by simp
  show "distinct (sort (remdups (filter P xs)))" by simp
  show "set (sort (remdups (filter P (sort xs)))) = set (sort (remdups (filter P xs)))" by simp
qed

lemma select_varkeys_some:
  "select_varkeys f (Some vks) ck
     = (if distinct vks \<and> skipped f vks = [] then []
        else [''Skipping '' @ join_comma (sort (remdups (skipped f vks)))],
        sort (remdups (surviving f vks)))"
proof -
  let ?P = "\<lambda>k. k \<in> set (map fst (variables f))"
  let ?V = "sort (remdups (filter ?P vks))"
  have c: "?V \<noteq> sort vks \<longleftrightarrow> \<not> (distinct vks \<and> skipped f vks = [])"
    using sort_remdups_eq_sort[of ?P vks] by (simp add: skipped_def)
  have "filter (\<lambda>k. k \<notin> set ?V) (sort vks) = filter (\<lambda>k. \<not> ?P k) (sort vks)"
    by (rule filter_cong) auto
  then have n: "sort (remdups (filter (\<lambda>k. k \<notin> set ?V) (sort vks)))
                 = sort (remdups (skipped f vks))"
    using sort_remdups_filter_sort[of "\<lambda>k. \<not> ?P k" vks] by (simp add: skipped_def)
  show ?thesis
    unfolding select_varkeys_def option.case Let_def n
    using c by (simp add: surviving_def)
qed




end
